theory Spec2Isabelle
  imports Complex_Main "HOL-Library.Word" "HOL-Library.Log_Nat"
begin

section \<open>Bento layout generator: the preset registry\<close>

text \<open>
  \<^verbatim>\<open>interface CellSpan { row; col; rowSpan; colSpan }\<close> and the value returned by a preset,
  \<^verbatim>\<open>{ rows; cols; cells: CellSpan[] }\<close>. Rows, columns and spans are counts, modelled as
  \<open>nat\<close>.
\<close>

record CellSpan =
  row :: nat
  col :: nat
  rowSpan :: nat
  colSpan :: nat

record Layout =
  rows :: nat
  cols :: nat
  cells :: "CellSpan list"

text \<open>
  \<^verbatim>\<open>grid: (r, c) => ({ rows: r, cols: c,
      cells: Array.from({ length: r * c }, (_, i) => ({
        row: Math.floor(i / c), col: i % c, rowSpan: 1, colSpan: 1 })) })\<close>
  \<^verbatim>\<open>Array.from\<close> on an object with a \<^verbatim>\<open>length\<close> first creates an array of that length,
  which throws a \<^verbatim>\<open>RangeError\<close> when the length exceeds \<open>2 ^ 32 - 1\<close>, the largest
  length of an array; otherwise it calls the function on the indices
  \<open>0, ..., length - 1\<close> in order. An index \<open>i\<close> is then below \<open>2 ^ 32\<close>, where
  \<^verbatim>\<open>Math.floor(i / c)\<close> and \<^verbatim>\<open>i % c\<close> are the integer quotient and remainder.
\<close>

datatype js_error = RangeError

definition Array_from :: "nat \<Rightarrow> (nat \<Rightarrow> 'a) \<Rightarrow> js_error + 'a list" where
  "Array_from len f = (if len \<le> 2 ^ 32 - 1 then Inr (map f [0..<len]) else Inl RangeError)"

definition grid :: "nat \<Rightarrow> nat \<Rightarrow> js_error + Layout" where
  "grid r c =
     (case Array_from (r * c)
             (\<lambda>i. \<lparr>row = i div c, col = i mod c, rowSpan = 1, colSpan = 1\<rparr>) of
        Inl e \<Rightarrow> Inl e
      | Inr cs \<Rightarrow> Inr \<lparr>rows = r, cols = c, cells = cs\<rparr>)"

section \<open>Color style generator: hexadecimal conversions\<close>

text \<open>
  A string is a list of characters. The two regular expressions of \<^verbatim>\<open>hexToRgb\<close> match
  only the characters \<open>#\<close>, \<open>0-9\<close>, \<open>a-f\<close> and \<open>A-F\<close>, so every other character
  (whatever its code) only makes a match fail.

  \<^verbatim>\<open>RGB\<close> is the object \<^verbatim>\<open>{ r, g, b }\<close> that \<^verbatim>\<open>hexToRgb\<close> returns; its fields hold the
  integers that \<^verbatim>\<open>parseInt\<close> returns. The fields are named \<open>rgb_r\<close>, \<open>rgb_g\<close>,
  \<open>rgb_b\<close>, since \<open>r\<close>, \<open>g\<close>, \<open>b\<close> are the parameters of the conversion functions.
\<close>

record RGB =
  rgb_r :: int
  rgb_g :: int
  rgb_b :: int

text \<open>
  The character class \<^verbatim>\<open>[a-f\d]\<close> under the flag \<^verbatim>\<open>i\<close>: a character matches when its
  lower-case form is in \<open>a-f\<close> or it is a decimal digit. \<open>digit_value\<close> is the value
  \<^verbatim>\<open>parseInt(_, 16)\<close> gives such a character, and \<open>parseInt16\<close> is \<^verbatim>\<open>parseInt(s, 16)\<close> on a
  string of such characters (the only strings the source passes to it).
\<close>

definition lower_char :: "char \<Rightarrow> char" where
  "lower_char ch =
     (let n = of_char ch :: nat in if 65 \<le> n \<and> n \<le> 90 then char_of (n + 32) else ch)"

definition is_hex_digit :: "char \<Rightarrow> bool" where
  "is_hex_digit ch =
     (let n = of_char (lower_char ch) :: nat in (97 \<le> n \<and> n \<le> 102) \<or> (48 \<le> n \<and> n \<le> 57))"

definition digit_value :: "char \<Rightarrow> int" where
  "digit_value ch =
     (let n = of_char (lower_char ch) :: nat in
      if 97 \<le> n then int n - 87 else int n - 48)"

definition parseInt16 :: "string \<Rightarrow> int" where
  "parseInt16 s = foldl (\<lambda>acc ch. 16 * acc + digit_value ch) 0 s"

text \<open>
  \<^verbatim>\<open>const shorthandRegex = /^#?([a-f\d])([a-f\d])([a-f\d])$/i;
  hex = hex.replace(shorthandRegex, (m, r, g, b) => r + r + g + g + b + b);
  const result = /^#?([a-f\d]{2})([a-f\d]{2})([a-f\d]{2})$/i.exec(hex);\<close>
  Both expressions are anchored at both ends, so a match is a match of the whole string.
  \<open>opt_hash\<close> lists what \<^verbatim>\<open>#?\<close> can leave to be matched, the greedy choice first;
  \<open>first_match\<close> is the backtracking over these choices; \<open>shorthand_groups\<close> and
  \<open>full_groups\<close> match the rest of each expression against the whole remainder and
  return the capture groups. \<^verbatim>\<open>replace\<close> puts the callback's result in the place of the
  match (here the whole string, \<open>#\<close> included) and leaves a string that does not match
  as it is.
\<close>

fun opt_hash :: "string \<Rightarrow> string list" where
  "opt_hash [] = [[]]"
| "opt_hash (ch # s) = (if ch = CHR ''#'' then [s, ch # s] else [ch # s])"

fun first_match :: "(string \<Rightarrow> 'a option) \<Rightarrow> string list \<Rightarrow> 'a option" where
  "first_match f [] = None"
| "first_match f (s # ss) = (case f s of Some x \<Rightarrow> Some x | None \<Rightarrow> first_match f ss)"

fun shorthand_groups :: "string \<Rightarrow> (char \<times> char \<times> char) option" where
  "shorthand_groups [r, g, b] =
     (if is_hex_digit r \<and> is_hex_digit g \<and> is_hex_digit b then Some (r, g, b) else None)"
| "shorthand_groups _ = None"

fun full_groups :: "string \<Rightarrow> (string \<times> string \<times> string) option" where
  "full_groups [r1, r2, g1, g2, b1, b2] =
     (if is_hex_digit r1 \<and> is_hex_digit r2 \<and> is_hex_digit g1 \<and> is_hex_digit g2
         \<and> is_hex_digit b1 \<and> is_hex_digit b2
      then Some ([r1, r2], [g1, g2], [b1, b2]) else None)"
| "full_groups _ = None"

definition expand_shorthand :: "string \<Rightarrow> string" where
  "expand_shorthand hex =
     (case first_match shorthand_groups (opt_hash hex) of
        Some (r, g, b) \<Rightarrow> [r, r, g, g, b, b]
      | None \<Rightarrow> hex)"

text \<open>
  \<^verbatim>\<open>return result
    ? { r: parseInt(result[1], 16), g: parseInt(result[2], 16), b: parseInt(result[3], 16) }
    : null;\<close>
\<close>

definition hexToRgb :: "string \<Rightarrow> RGB option" where
  "hexToRgb hex =
     (case first_match full_groups (opt_hash (expand_shorthand hex)) of
        Some (r, g, b) \<Rightarrow> Some \<lparr>rgb_r = parseInt16 r, rgb_g = parseInt16 g, rgb_b = parseInt16 b\<rparr>
      | None \<Rightarrow> None)"

text \<open>
  \<^verbatim>\<open>function rgbToHex(r, g, b) {
    return '#' + ((1 << 24) + (r << 16) + (g << 8) + b).toString(16).slice(1).padStart(6, '0');
  }\<close>
  On integers, \<^verbatim>\<open><<\<close> shifts the 32-bit two's complement value of its left operand and
  reads the result as a signed 32-bit integer (\<open>shl\<close>); \<^verbatim>\<open>+\<close> is exact on integers of
  this size. \<open>toString16\<close> is \<^verbatim>\<open>toString(16)\<close> on integers: lower-case digits, a minus
  sign for a negative number. \<^verbatim>\<open>slice(1)\<close> is \<open>drop 1\<close>.
\<close>

definition shl :: "int \<Rightarrow> nat \<Rightarrow> int" where
  "shl x n = sint (push_bit (n mod 32) (word_of_int x :: 32 word))"

definition digit_char :: "nat \<Rightarrow> char" where
  "digit_char d = ''0123456789abcdef'' ! d"

fun digits16 :: "nat \<Rightarrow> string" where
  "digits16 n = (if n < 16 then [digit_char n] else digits16 (n div 16) @ [digit_char (n mod 16)])"

definition toString16 :: "int \<Rightarrow> string" where
  "toString16 n = (if n < 0 then CHR ''-'' # digits16 (nat (- n)) else digits16 (nat n))"

definition padStart :: "nat \<Rightarrow> char \<Rightarrow> string \<Rightarrow> string" where
  "padStart n ch s = replicate (n - length s) ch @ s"

definition rgbToHex :: "int \<Rightarrow> int \<Rightarrow> int \<Rightarrow> string" where
  "rgbToHex r g b =
     CHR ''#'' # padStart 6 CHR ''0'' (drop 1 (toString16 (shl 1 24 + shl r 16 + shl g 8 + b)))"

section \<open>JavaScript numbers\<close>

text \<open>
  A JavaScript \<^verbatim>\<open>number\<close> is an IEEE 754 double. A finite double is a real number of the
  form \<open>m * 2 ^ e\<close> with \<open>\<bar>m\<bar> < 2 ^ 53\<close> and \<open>e \<ge> - 1074\<close>, and each arithmetic operation
  returns the exact result rounded to the nearest double, ties to the even significand.
  \<open>fl\<close> is this rounding: \<open>rne\<close> rounds to the nearest integer, ties to even;
  \<open>ilog2 x\<close> is \<open>\<lfloor>log\<^sub>2 \<bar>x\<bar>\<rfloor>\<close>, computed from the bit length of an integer; \<open>expo x\<close> is
  the exponent of the binade of \<open>x\<close>, not below that of the subnormal numbers; and
  \<open>pow2 (expo x - 52)\<close> is the distance between neighbouring doubles around \<open>x\<close>.
  Every number the palette generator computes is below 256 in absolute value, far from
  the overflow threshold \<open>2 ^ 1024\<close>, so infinities and NaN are not modelled (the
  \<^verbatim>\<open>Infinity\<close> that starts the search loop is modelled where it occurs).
\<close>

definition rne :: "real \<Rightarrow> int" where
  "rne y =
     (let f = \<lfloor>y\<rfloor>; d = y - of_int f in
      if d < 1 / 2 then f else if 1 / 2 < d then f + 1 else if even f then f else f + 1)"

definition pow2 :: "int \<Rightarrow> real" where
  "pow2 k = (if 0 \<le> k then 2 ^ nat k else 1 / 2 ^ nat (- k))"

definition ilog2 :: "real \<Rightarrow> int" where
  "ilog2 x = (if 1 \<le> \<bar>x\<bar> then bitlen \<lfloor>\<bar>x\<bar>\<rfloor> - 1 else - bitlen (\<lceil>1 / \<bar>x\<bar>\<rceil> - 1))"

definition expo :: "real \<Rightarrow> int" where
  "expo x = max (ilog2 x) (- 1022)"

definition fl :: "real \<Rightarrow> real" where
  "fl x = (if x = 0 then 0 else of_int (rne (x / pow2 (expo x - 52))) * pow2 (expo x - 52))"

subsection \<open>Arithmetic of JavaScript numbers\<close>

text \<open>
  Every arithmetic operator of the source returns the exact result rounded by \<open>fl\<close>.
  \<^verbatim>\<open>Math.max\<close>, \<^verbatim>\<open>Math.min\<close>, \<^verbatim>\<open>Math.abs\<close> and the comparisons are exact.
  \<^verbatim>\<open>Math.round(x)\<close> is \<open>\<lfloor>x + 1/2\<rfloor>\<close>: halves go up. A decimal literal of the source denotes
  the double nearest to it (\<open>lit\<close>); the literals 0, 1, 2, 4, 6, 255 and 0.5 are doubles
  and are written as they are.
\<close>

definition js_add :: "real \<Rightarrow> real \<Rightarrow> real" where
  "js_add x y = fl (x + y)"

definition js_sub :: "real \<Rightarrow> real \<Rightarrow> real" where
  "js_sub x y = fl (x - y)"

definition js_mul :: "real \<Rightarrow> real \<Rightarrow> real" where
  "js_mul x y = fl (x * y)"

definition js_div :: "real \<Rightarrow> real \<Rightarrow> real" where
  "js_div x y = fl (x / y)"

definition lit :: "real \<Rightarrow> real" where
  "lit x = fl x"

definition Math_round :: "real \<Rightarrow> int" where
  "Math_round x = \<lfloor>x + 1 / 2\<rfloor>"

section \<open>Color style generator\<close>

subsection \<open>Types and constants of the adaptive algorithm\<close>

text \<open>
  \<^verbatim>\<open>type HSL = [number, number, number]\<close>;
  \<^verbatim>\<open>type ColorWeight = '50' | '100' | '200' | '300' | '400' | '500' | '600' | '700' | '800' | '900' | '950'\<close>.
  A constructor cannot start with a digit: weight \<^verbatim>\<open>'50'\<close> is \<open>W50\<close>, and
  \<open>weight_label\<close> gives the string back.
\<close>

type_synonym HSL = "real \<times> real \<times> real"

datatype ColorWeight = W50 | W100 | W200 | W300 | W400 | W500 | W600 | W700 | W800 | W900 | W950

fun weight_label :: "ColorWeight \<Rightarrow> string" where
  "weight_label W50 = ''50''"
| "weight_label W100 = ''100''"
| "weight_label W200 = ''200''"
| "weight_label W300 = ''300''"
| "weight_label W400 = ''400''"
| "weight_label W500 = ''500''"
| "weight_label W600 = ''600''"
| "weight_label W700 = ''700''"
| "weight_label W800 = ''800''"
| "weight_label W900 = ''900''"
| "weight_label W950 = ''950''"

text \<open>
  \<^verbatim>\<open>const TARGET_LIGHTNESS: Record<ColorWeight, number> = { '50': 0.97, '100': 0.94,
    '200': 0.86, '300': 0.76, '400': 0.65, '500': 0.54, '600': 0.43, '700': 0.32, '800': 0.22,
    '900': 0.13, '950': 0.06 }\<close>
\<close>

fun TARGET_LIGHTNESS :: "ColorWeight \<Rightarrow> real" where
  "TARGET_LIGHTNESS W50 = lit (97 / 100)"
| "TARGET_LIGHTNESS W100 = lit (94 / 100)"
| "TARGET_LIGHTNESS W200 = lit (86 / 100)"
| "TARGET_LIGHTNESS W300 = lit (76 / 100)"
| "TARGET_LIGHTNESS W400 = lit (65 / 100)"
| "TARGET_LIGHTNESS W500 = lit (54 / 100)"
| "TARGET_LIGHTNESS W600 = lit (43 / 100)"
| "TARGET_LIGHTNESS W700 = lit (32 / 100)"
| "TARGET_LIGHTNESS W800 = lit (22 / 100)"
| "TARGET_LIGHTNESS W900 = lit (13 / 100)"
| "TARGET_LIGHTNESS W950 = lit (6 / 100)"

text \<open>
  \<^verbatim>\<open>const TARGET_SATURATION: Record<ColorWeight, number> = { '50': 0.8, '100': 0.85,
    '200': 0.9, '300': 0.95, '400': 1.0, '500': 1.0, '600': 1.0, '700': 0.98, '800': 0.95,
    '900': 0.9, '950': 0.85 }\<close>
\<close>

fun TARGET_SATURATION :: "ColorWeight \<Rightarrow> real" where
  "TARGET_SATURATION W50 = lit (80 / 100)"
| "TARGET_SATURATION W100 = lit (85 / 100)"
| "TARGET_SATURATION W200 = lit (90 / 100)"
| "TARGET_SATURATION W300 = lit (95 / 100)"
| "TARGET_SATURATION W400 = 1"
| "TARGET_SATURATION W500 = 1"
| "TARGET_SATURATION W600 = 1"
| "TARGET_SATURATION W700 = lit (98 / 100)"
| "TARGET_SATURATION W800 = lit (95 / 100)"
| "TARGET_SATURATION W900 = lit (90 / 100)"
| "TARGET_SATURATION W950 = lit (85 / 100)"

definition ALL_WEIGHTS :: "ColorWeight list" where
  "ALL_WEIGHTS = [W50, W100, W200, W300, W400, W500, W600, W700, W800, W900, W950]"

subsection \<open>Color conversion utilities\<close>

text \<open>
  \<^verbatim>\<open>function rgbToHsl(r, g, b): HSL {
    r /= 255; g /= 255; b /= 255;
    const max = Math.max(r, g, b), min = Math.min(r, g, b);
    let h = 0, s = 0, l = (max + min) / 2;
    if (max !== min) {
      const d = max - min;
      s = l > 0.5 ? d / (2 - max - min) : d / (max + min);
      switch (max) {
        case r: h = (g - b) / d + (g < b ? 6 : 0); break;
        case g: h = (b - r) / d + 2; break;
        case b: h = (r - g) / d + 4; break;
      }
      h /= 6;
    }
    return [h, s, l];
  }\<close>
  The parameters are reassigned by the first line; the model names the incoming values
  \<open>r0\<close>, \<open>g0\<close>, \<open>b0\<close>. The \<^verbatim>\<open>switch\<close> takes the first case equal to \<^verbatim>\<open>max\<close>.
\<close>

definition rgbToHsl :: "real \<Rightarrow> real \<Rightarrow> real \<Rightarrow> HSL" where
  "rgbToHsl r0 g0 b0 =
     (let r = js_div r0 255; g = js_div g0 255; b = js_div b0 255;
          mx = max r (max g b); mn = min r (min g b);
          l = js_div (js_add mx mn) 2
      in if mx \<noteq> mn then
           (let d = js_sub mx mn;
                s = (if l > 1 / 2 then js_div d (js_sub (js_sub 2 mx) mn)
                     else js_div d (js_add mx mn));
                h = (if mx = r then js_add (js_div (js_sub g b) d) (if g < b then 6 else 0)
                     else if mx = g then js_add (js_div (js_sub b r) d) 2
                     else if mx = b then js_add (js_div (js_sub r g) d) 4
                     else 0)
            in (js_div h 6, s, l))
         else (0, 0, l))"

text \<open>
  \<^verbatim>\<open>const hue2rgb = (p, q, t) => {
    if (t < 0) t += 1;
    if (t > 1) t -= 1;
    if (t < 1 / 6) return p + (q - p) * 6 * t;
    if (t < 1 / 2) return q;
    if (t < 2 / 3) return p + (q - p) * (2 / 3 - t) * 6;
    return p;
  }\<close>
\<close>

definition hue2rgb :: "real \<Rightarrow> real \<Rightarrow> real \<Rightarrow> real" where
  "hue2rgb p q t0 =
     (let t1 = (if t0 < 0 then js_add t0 1 else t0);
          t = (if t1 > 1 then js_sub t1 1 else t1)
      in if t < js_div 1 6 then js_add p (js_mul (js_mul (js_sub q p) 6) t)
         else if t < js_div 1 2 then q
         else if t < js_div 2 3
           then js_add p (js_mul (js_mul (js_sub q p) (js_sub (js_div 2 3) t)) 6)
         else p)"

text \<open>
  \<^verbatim>\<open>function hslToRgb(h, s, l): [number, number, number] {
    let r, g, b;
    if (s === 0) { r = g = b = l; }
    else {
      const q = l < 0.5 ? l * (1 + s) : l + s - l * s;
      const p = 2 * l - q;
      r = hue2rgb(p, q, h + 1 / 3);
      g = hue2rgb(p, q, h);
      b = hue2rgb(p, q, h - 1 / 3);
    }
    return [Math.round(r * 255), Math.round(g * 255), Math.round(b * 255)];
  }\<close>
\<close>

definition hslToRgb :: "real \<Rightarrow> real \<Rightarrow> real \<Rightarrow> int \<times> int \<times> int" where
  "hslToRgb h s l =
     (let (r, g, b) =
        (if s = 0 then (l, l, l)
         else
           (let q = (if l < 1 / 2 then js_mul l (js_add 1 s)
                     else js_sub (js_add l s) (js_mul l s));
                p = js_sub (js_mul 2 l) q
            in (hue2rgb p q (js_add h (js_div 1 3)),
                hue2rgb p q h,
                hue2rgb p q (js_sub h (js_div 1 3)))))
      in (Math_round (js_mul r 255), Math_round (js_mul g 255), Math_round (js_mul b 255)))"

subsection \<open>The host document\<close>

text \<open>
  The handler acts on the host through \<^verbatim>\<open>figma.variables.createVariableCollection\<close>,
  \<^verbatim>\<open>figma.createPaintStyle\<close>, \<^verbatim>\<open>figma.variables.createVariable\<close>,
  \<^verbatim>\<open>setValueForMode\<close>, \<^verbatim>\<open>figma.notify\<close> and \<^verbatim>\<open>figma.closePlugin\<close>. The document is
  the record of what these calls have created, in order of creation. A collection is known
  to a variable by its position in \<open>collections\<close>; a new collection has one mode,
  \<^verbatim>\<open>modes[0]\<close>.
\<close>

record Color =
  color_r :: real
  color_g :: real
  color_b :: real

record PaintStyle =
  style_name :: string
  style_paints :: "Color list"

record VariableCollection =
  collection_name :: string
  collection_modes :: "nat list"

record Variable =
  variable_name :: string
  variable_collection :: nat
  variable_type :: string
  variable_values :: "(nat \<times> Color) list"

record Notification =
  note_message :: string
  note_error :: bool

record Document =
  collections :: "VariableCollection list"
  paintStyles :: "PaintStyle list"
  variables :: "Variable list"
  notifications :: "Notification list"
  closed :: bool

definition createVariableCollection :: "string \<Rightarrow> Document \<Rightarrow> nat \<times> Document" where
  "createVariableCollection nm doc =
     (length (collections doc),
      doc\<lparr>collections := collections doc @ [\<lparr>collection_name = nm, collection_modes = [0]\<rparr>]\<rparr>)"

definition createPaintStyle :: "string \<Rightarrow> Color list \<Rightarrow> Document \<Rightarrow> Document" where
  "createPaintStyle nm paints doc =
     doc\<lparr>paintStyles := paintStyles doc @ [\<lparr>style_name = nm, style_paints = paints\<rparr>]\<rparr>"

definition createVariable ::
  "string \<Rightarrow> nat \<Rightarrow> string \<Rightarrow> (nat \<times> Color) list \<Rightarrow> Document \<Rightarrow> Document" where
  "createVariable nm coll ty vals doc =
     doc\<lparr>variables := variables doc @
       [\<lparr>variable_name = nm, variable_collection = coll, variable_type = ty,
         variable_values = vals\<rparr>]\<rparr>"

definition notify :: "string \<Rightarrow> bool \<Rightarrow> Document \<Rightarrow> Document" where
  "notify message err doc =
     doc\<lparr>notifications := notifications doc @ [\<lparr>note_message = message, note_error = err\<rparr>]\<rparr>"

definition closePlugin :: "Document \<Rightarrow> Document" where
  "closePlugin doc = doc\<lparr>closed := True\<rparr>"

subsection \<open>The message handler\<close>

text \<open>
  \<^verbatim>\<open>let baseWeight: ColorWeight = '500';
  let minLightnessDiff = Infinity;
  for (const weight of ALL_WEIGHTS) {
    const diff = Math.abs(inputL - TARGET_LIGHTNESS[weight]);
    if (diff < minLightnessDiff) { minLightnessDiff = diff; baseWeight = weight; }
  }\<close>
  The loop state is the pair \<open>(baseWeight, minLightnessDiff)\<close>; \<open>None\<close> stands for
  \<^verbatim>\<open>Infinity\<close>, which every difference is below.
\<close>

definition lightnessDiff :: "real \<Rightarrow> ColorWeight \<Rightarrow> real" where
  "lightnessDiff inputL weight = \<bar>js_sub inputL (TARGET_LIGHTNESS weight)\<bar>"

fun below :: "real \<Rightarrow> real option \<Rightarrow> bool" where
  "below diff None = True"
| "below diff (Some m) = (diff < m)"

fun closestWeight ::
  "real \<Rightarrow> ColorWeight list \<Rightarrow> ColorWeight \<times> real option \<Rightarrow> ColorWeight \<times> real option" where
  "closestWeight inputL [] (baseWeight, minLightnessDiff) = (baseWeight, minLightnessDiff)"
| "closestWeight inputL (weight # ws) (baseWeight, minLightnessDiff) =
     (let diff = lightnessDiff inputL weight
      in if below diff minLightnessDiff then closestWeight inputL ws (weight, Some diff)
         else closestWeight inputL ws (baseWeight, minLightnessDiff))"

definition findBaseWeight :: "real \<Rightarrow> ColorWeight" where
  "findBaseWeight inputL = fst (closestWeight inputL ALL_WEIGHTS (W500, None))"

text \<open>
  \<^verbatim>\<open>const lightnessDelta = inputL - TARGET_LIGHTNESS[baseWeight];
  const saturationDelta = inputS - TARGET_SATURATION[baseWeight] * inputS;\<close>
\<close>

definition lightnessDelta :: "real \<Rightarrow> ColorWeight \<Rightarrow> real" where
  "lightnessDelta inputL baseWeight = js_sub inputL (TARGET_LIGHTNESS baseWeight)"

definition saturationDelta :: "real \<Rightarrow> ColorWeight \<Rightarrow> real" where
  "saturationDelta inputS baseWeight =
     js_sub inputS (js_mul (TARGET_SATURATION baseWeight) inputS)"

text \<open>
  The body of the second loop, up to the color it computes:
  \<^verbatim>\<open>const hue = inputH;
  const newLightness = TARGET_LIGHTNESS[weight] + lightnessDelta;
  const newSaturation = TARGET_SATURATION[weight] * inputS + saturationDelta;
  const clampedL = Math.max(0, Math.min(1, newLightness));
  const clampedS = Math.max(0, Math.min(1, newSaturation));
  const newRgbArray = hslToRgb(hue, clampedS, clampedL);\<close>
\<close>

definition newLightness :: "real \<Rightarrow> ColorWeight \<Rightarrow> real" where
  "newLightness lDelta weight = js_add (TARGET_LIGHTNESS weight) lDelta"

definition newSaturation :: "real \<Rightarrow> real \<Rightarrow> ColorWeight \<Rightarrow> real" where
  "newSaturation inputS sDelta weight = js_add (js_mul (TARGET_SATURATION weight) inputS) sDelta"

definition clampedL :: "real \<Rightarrow> ColorWeight \<Rightarrow> real" where
  "clampedL lDelta weight = max 0 (min 1 (newLightness lDelta weight))"

definition clampedS :: "real \<Rightarrow> real \<Rightarrow> ColorWeight \<Rightarrow> real" where
  "clampedS inputS sDelta weight = max 0 (min 1 (newSaturation inputS sDelta weight))"

definition newRgbArray :: "real \<Rightarrow> real \<Rightarrow> real \<Rightarrow> real \<Rightarrow> ColorWeight \<Rightarrow> int \<times> int \<times> int" where
  "newRgbArray inputH inputS lDelta sDelta weight =
     (let hue = inputH
      in hslToRgb hue (clampedS inputS sDelta weight) (clampedL lDelta weight))"

text \<open>
  The rest of the loop body registers the color:
  \<^verbatim>\<open>const style = figma.createPaintStyle();
  style.name = `UI Colors/${name}/${weight}`;
  style.paints = [{ type: 'SOLID',
    color: { r: newRgb.r / 255, g: newRgb.g / 255, b: newRgb.b / 255 } }];
  const colorVariable = figma.variables.createVariable(`${name}/${weight}`, collection, 'COLOR');
  const lightModeId = collection.modes[0].modeId;
  colorVariable.setValueForMode(lightModeId,
    { r: newRgb.r / 255, g: newRgb.g / 255, b: newRgb.b / 255 });\<close>
\<close>

definition solidColor :: "int \<times> int \<times> int \<Rightarrow> Color" where
  "solidColor newRgb =
     (case newRgb of (r, g, b) \<Rightarrow>
        \<lparr>color_r = js_div (of_int r) 255, color_g = js_div (of_int g) 255,
         color_b = js_div (of_int b) 255\<rparr>)"

definition registerColor ::
  "string \<Rightarrow> nat \<Rightarrow> ColorWeight \<Rightarrow> int \<times> int \<times> int \<Rightarrow> Document \<Rightarrow> Document" where
  "registerColor name collection weight newRgb doc =
     (let doc1 = createPaintStyle (''UI Colors/'' @ name @ ''/'' @ weight_label weight)
                   [solidColor newRgb] doc;
          lightModeId = hd (collection_modes (collections doc1 ! collection))
      in createVariable (name @ ''/'' @ weight_label weight) collection ''COLOR''
           [(lightModeId, solidColor newRgb)] doc1)"

definition art_emoji :: string where
  "art_emoji = map char_of [240, 159, 142, 168 :: nat]"

text \<open>
  \<^verbatim>\<open>figma.ui.onmessage = async (msg) => {
    if (msg.type === 'generate-palette') {
      const { name, hex } = msg;
      const collection = figma.variables.createVariableCollection('UI Colors');
      const baseColorRgb = hexToRgb(hex);
      if (!baseColorRgb) {
        figma.notify('Invalid hex code provided.', { error: true });
        return;
      }
      const [inputH, inputS, inputL] = rgbToHsl(baseColorRgb.r, baseColorRgb.g, baseColorRgb.b);
      ... (the two loops above) ...
      figma.notify(`<emoji> "${name}" styles created in the "UI Colors" group!`);
      figma.closePlugin();
    }
  }\<close>
  The handler awaits nothing, so it runs to its end in one step of the host.
\<close>

record Message =
  msg_type :: string
  msg_name :: string
  msg_hex :: string

definition seedHsl :: "RGB \<Rightarrow> HSL" where
  "seedHsl baseColorRgb =
     rgbToHsl (of_int (rgb_r baseColorRgb)) (of_int (rgb_g baseColorRgb))
       (of_int (rgb_b baseColorRgb))"

definition generatePalette :: "string \<Rightarrow> nat \<Rightarrow> HSL \<Rightarrow> Document \<Rightarrow> Document" where
  "generatePalette name collection hsl doc =
     (case hsl of (inputH, inputS, inputL) \<Rightarrow>
        (let baseWeight = findBaseWeight inputL;
             lDelta = lightnessDelta inputL baseWeight;
             sDelta = saturationDelta inputS baseWeight
         in foldl (\<lambda>d weight.
              registerColor name collection weight
                (newRgbArray inputH inputS lDelta sDelta weight) d) doc ALL_WEIGHTS))"

definition onmessage :: "Message \<Rightarrow> Document \<Rightarrow> Document" where
  "onmessage msg doc =
     (if msg_type msg = ''generate-palette'' then
        (let name = msg_name msg; hex = msg_hex msg;
             (collection, doc1) = createVariableCollection ''UI Colors'' doc
         in case hexToRgb hex of
              None \<Rightarrow> notify ''Invalid hex code provided.'' True doc1
            | Some baseColorRgb \<Rightarrow>
                closePlugin
                  (notify (art_emoji @ '' \"'' @ name @ ''\" styles created in the \"UI Colors\" group!'')
                     False
                     (generatePalette name collection (seedHsl baseColorRgb) doc1)))
      else doc)"

text \<open>A document in which nothing has been created yet.\<close>

definition emptyDocument :: Document where
  "emptyDocument =
     \<lparr>collections = [], paintStyles = [], variables = [], notifications = [], closed = False\<rparr>"

section \<open>Auxiliary definitions for the proofs\<close>

text \<open>\<open>strip_hash\<close> removes one leading \<open>#\<close>, if there is one.\<close>

definition strip_hash :: "string \<Rightarrow> string" where
  "strip_hash x = (case x of [] \<Rightarrow> [] | ch # t \<Rightarrow> if ch = CHR ''#'' then t else x)"

text \<open>
  The shape of \<^verbatim>\<open>hue2rgb\<close> in exact arithmetic: \<open>hue2rgb p q t\<close> is about
  \<open>p + (q - p) * hue_shape t\<close>, where \<open>hue_shape\<close> rises from 0 to 1 on \<open>[0, 1/6]\<close>, is 1 up to
  \<open>1/2\<close>, falls to 0 on \<open>[1/2, 2/3]\<close> and is 0 up to 1, with period 1. The three terms
  cover the arguments from \<open>- 1\<close> to 2.
\<close>

definition tri :: "real \<Rightarrow> real" where
  "tri t = min (6 * t) (4 - 6 * t)"

definition hue_shape :: "real \<Rightarrow> real" where
  "hue_shape t = max 0 (min 1 (max (tri (t + 1)) (max (tri t) (tri (t - 1)))))"

text \<open>
  What \<open>rgbToHsl\<close> returns for a color that is not grey, written from its largest channel
  \<open>a\<close>, its smallest channel \<open>c\<close>, the two channels \<open>y\<close> and \<open>z\<close> whose difference the
  \<^verbatim>\<open>switch\<close> divides, and the constant \<open>k\<close> that it adds.
\<close>

definition hsl_of :: "int \<Rightarrow> int \<Rightarrow> int \<Rightarrow> int \<Rightarrow> real \<Rightarrow> HSL" where
  "hsl_of a c y z k =
     (let M = fl (of_int a / 255); m = fl (of_int c / 255);
          l = js_div (js_add M m) 2;
          d = js_sub M m;
          s = (if l > 1 / 2 then js_div d (js_sub (js_sub 2 M) m) else js_div d (js_add M m))
      in (js_div (js_add (js_div (js_sub (fl (of_int y / 255)) (fl (of_int z / 255))) d) k) 6,
          s, l))"

section \<open>Theorems about the preset registry\<close>

lemma grid_Inr:
  assumes "r * c \<le> 2 ^ 32 - 1"
  shows "grid r c = Inr \<lparr>rows = r, cols = c,
    cells = map (\<lambda>i. \<lparr>row = i div c, col = i mod c, rowSpan = 1, colSpan = 1\<rparr>) [0..<r * c]\<rparr>"
  using assms by (simp add: grid_def Array_from_def)

lemma grid_Inl:
  assumes "\<not> r * c \<le> 2 ^ 32 - 1"
  shows "grid r c = Inl RangeError"
  using assms by (simp add: grid_def Array_from_def)

lemma grid_index_unique:
  assumes c: "0 < (c::nat)" and ro: "ro < r" and co: "co < c"
  shows "\<exists>!i. i < r * c \<and> i div c = ro \<and> i mod c = co"
proof (rule ex1I [of _ "ro * c + co"])
  have "ro * c + co < ro * c + c" using co by simp
  also have "\<dots> = Suc ro * c" by simp
  also have "\<dots> \<le> r * c" using ro by (intro mult_le_mono1) simp
  finally have "ro * c + co < r * c" .
  then show "ro * c + co < r * c \<and> (ro * c + co) div c = ro \<and> (ro * c + co) mod c = co"
    using c co by simp
next
  fix i
  assume a: "i < r * c \<and> i div c = ro \<and> i mod c = co"
  have "i = i div c * c + i mod c" by simp
  also have "\<dots> = ro * c + co" using a by simp
  finally show "i = ro * c + co" .
qed

text \<open>
  Claim C10, as amended. For \<open>r \<ge> 1\<close> and \<open>c \<ge> 1\<close> with \<open>r * c \<le> 2 ^ 32 - 1\<close> the grid
  preset returns a layout of exactly \<open>r * c\<close> cells; cell \<open>i\<close> has row \<open>i div c\<close>, column
  \<open>i mod c\<close> and both spans 1 (row-major order); every cell lies inside the \<open>r \<times> c\<close>
  board, and every position of the board is the position of exactly one cell: no
  overlap and no gap. When \<open>r * c\<close> exceeds \<open>2 ^ 32 - 1\<close> the preset throws a
  \<^verbatim>\<open>RangeError\<close> and returns no layout.
\<close>

theorem grid_tiling:
  assumes "1 \<le> r" and "1 \<le> c"
  shows "(r * c \<le> 2 ^ 32 - 1 \<longrightarrow>
      (\<exists>lay. grid r c = Inr lay \<and> rows lay = r \<and> cols lay = c
        \<and> length (cells lay) = r * c
        \<and> (\<forall>i < r * c. cells lay ! i
              = \<lparr>row = i div c, col = i mod c, rowSpan = 1, colSpan = 1\<rparr>)
        \<and> (\<forall>i < r * c. row (cells lay ! i) < r \<and> col (cells lay ! i) < c)
        \<and> (\<forall>ro < r. \<forall>co < c. \<exists>!i. i < r * c
              \<and> row (cells lay ! i) = ro \<and> col (cells lay ! i) = co)))
    \<and> (\<not> r * c \<le> 2 ^ 32 - 1 \<longrightarrow> grid r c = Inl RangeError)"
proof (intro conjI impI)
  assume big: "\<not> r * c \<le> 2 ^ 32 - 1"
  then show "grid r c = Inl RangeError" by (rule grid_Inl)
next
  assume small: "r * c \<le> 2 ^ 32 - 1"
  define lay where "lay = \<lparr>rows = r, cols = c,
    cells = map (\<lambda>i. \<lparr>row = i div c, col = i mod c, rowSpan = 1, colSpan = 1\<rparr>) [0..<r * c]\<rparr>"
  have g: "grid r c = Inr lay" unfolding lay_def using small by (rule grid_Inr)
  have len: "length (cells lay) = r * c" by (simp add: lay_def)
  have nth: "cells lay ! i = \<lparr>row = i div c, col = i mod c, rowSpan = 1, colSpan = 1\<rparr>"
    if "i < r * c" for i
    using that by (simp add: lay_def)
  have c: "0 < c" using assms by simp
  have inside: "i div c < r" if "i < r * c" for i
    using that c by (simp add: less_mult_imp_div_less)
  have uniq: "\<exists>!i. i < r * c \<and> row (cells lay ! i) = ro \<and> col (cells lay ! i) = co"
    if "ro < r" "co < c" for ro co
  proof -
    from grid_index_unique [OF c that]
    obtain i where i: "i < r * c" "i div c = ro" "i mod c = co"
      and u: "\<And>j. j < r * c \<and> j div c = ro \<and> j mod c = co \<Longrightarrow> j = i"
      by blast
    show ?thesis
    proof (rule ex1I [of _ i])
      show "i < r * c \<and> row (cells lay ! i) = ro \<and> col (cells lay ! i) = co"
        using i by (simp add: nth)
    next
      fix j
      assume j: "j < r * c \<and> row (cells lay ! j) = ro \<and> col (cells lay ! j) = co"
      then have "j < r * c" by simp
      with j have "j < r * c \<and> j div c = ro \<and> j mod c = co"
        by (simp add: nth)
      then show "j = i" by (rule u)
    qed
  qed
  have "rows lay = r \<and> cols lay = c \<and> length (cells lay) = r * c
        \<and> (\<forall>i < r * c. cells lay ! i
              = \<lparr>row = i div c, col = i mod c, rowSpan = 1, colSpan = 1\<rparr>)
        \<and> (\<forall>i < r * c. row (cells lay ! i) < r \<and> col (cells lay ! i) < c)
        \<and> (\<forall>ro < r. \<forall>co < c. \<exists>!i. i < r * c
              \<and> row (cells lay ! i) = ro \<and> col (cells lay ! i) = co)"
    using c inside uniq len by (simp add: nth) (simp add: lay_def)
  with g show "\<exists>lay. grid r c = Inr lay \<and> rows lay = r \<and> cols lay = c
        \<and> length (cells lay) = r * c
        \<and> (\<forall>i < r * c. cells lay ! i
              = \<lparr>row = i div c, col = i mod c, rowSpan = 1, colSpan = 1\<rparr>)
        \<and> (\<forall>i < r * c. row (cells lay ! i) < r \<and> col (cells lay ! i) < c)
        \<and> (\<forall>ro < r. \<forall>co < c. \<exists>!i. i < r * c
              \<and> row (cells lay ! i) = ro \<and> col (cells lay ! i) = co)"
    by blast
qed

theorem grid_tiling_witness:
  "\<exists>lay. grid 2 3 = Inr lay \<and> length (cells lay) = 6
    \<and> cells lay ! 4 = \<lparr>row = 1, col = 1, rowSpan = 1, colSpan = 1\<rparr>
    \<and> (\<exists>!i. i < 6 \<and> row (cells lay ! i) = 1 \<and> col (cells lay ! i) = 2)"
proof -
  have h: "(1::nat) \<le> 2" "(1::nat) \<le> 3" by simp_all
  have s: "(2::nat) * 3 \<le> 2 ^ 32 - 1" by simp
  from grid_tiling [OF h] s
  obtain lay where l: "grid 2 3 = Inr lay" "length (cells lay) = 2 * 3"
    "\<forall>i < 2 * 3. cells lay ! i = \<lparr>row = i div 3, col = i mod 3, rowSpan = 1, colSpan = 1\<rparr>"
    "\<forall>ro < 2. \<forall>co < 3. \<exists>!i. i < 2 * 3 \<and> row (cells lay ! i) = ro \<and> col (cells lay ! i) = co"
    by blast
  from l(3) have "cells lay ! 4 = \<lparr>row = 1, col = 1, rowSpan = 1, colSpan = 1\<rparr>" by simp
  moreover from l(4) have "\<exists>!i. i < 6 \<and> row (cells lay ! i) = 1 \<and> col (cells lay ! i) = 2"
    by simp
  ultimately show ?thesis using l(1,2) by simp
qed

text \<open>
  The claim as stated, for every \<open>r \<ge> 1\<close> and \<open>c \<ge> 1\<close>, fails at \<open>r = c = 65536\<close>: the
  length \<open>2 ^ 32\<close> is not the length of an array, and the preset throws instead of
  returning \<open>r * c\<close> cells.
\<close>

theorem grid_too_large:
  "(1::nat) \<le> 65536 \<and> (65536::nat) * 65536 = 2 ^ 32 \<and> grid 65536 65536 = Inl RangeError
   \<and> (\<nexists>lay. grid 65536 65536 = Inr lay)"
proof -
  have "\<not> (65536::nat) * 65536 \<le> 2 ^ 32 - 1" by simp
  then have "grid 65536 65536 = Inl RangeError" by (rule grid_Inl)
  then show ?thesis by simp
qed

section \<open>Theorems about the hexadecimal conversions\<close>

lemma shl_nonneg:
  assumes "0 \<le> x" and "x * 2 ^ n < 2 ^ 31" and "n < 32"
  shows "shl x n = x * 2 ^ n"
proof -
  have "0 \<le> x * 2 ^ n" using assms(1) by simp
  then have *: "signed_take_bit 31 (x * 2 ^ n) = x * 2 ^ n"
    using assms(2) by (intro signed_take_bit_int_eq_self) simp_all
  have "shl x n = sint (word_of_int (x * 2 ^ n) :: 32 word)"
    using assms(3) by (simp add: shl_def push_bit_eq_mult)
  also have "\<dots> = signed_take_bit 31 (x * 2 ^ n)"
    by (simp only: sint_sbintrunc') simp
  finally show ?thesis using * by simp
qed

lemma shl_channels:
  assumes "0 \<le> r" "r \<le> 255" "0 \<le> g" "g \<le> 255"
  shows "shl 1 24 + shl r 16 + shl g 8 + b = 16777216 + r * 65536 + g * 256 + b"
proof -
  have "shl 1 24 = 16777216" by (simp add: shl_nonneg)
  moreover have "shl r 16 = r * 65536" using assms by (simp add: shl_nonneg)
  moreover have "shl g 8 = g * 256" using assms by (simp add: shl_nonneg)
  ultimately show ?thesis by simp
qed

lemma digits16_step:
  "0 < q \<Longrightarrow> d < 16 \<Longrightarrow> digits16 (16 * q + d) = digits16 q @ [digit_char d]"
  by (subst digits16.simps) simp

lemma digits16_small: "d < 16 \<Longrightarrow> digits16 d = [digit_char d]"
  by (subst digits16.simps) simp

lemma digits16_seven:
  assumes "d1 < 16" "d2 < 16" "d3 < 16" "d4 < 16" "d5 < 16" "d6 < 16"
  shows "digits16 (16 * (16 * (16 * (16 * (16 * (16 * 1 + d1) + d2) + d3) + d4) + d5) + d6) =
     [digit_char 1, digit_char d1, digit_char d2, digit_char d3, digit_char d4,
      digit_char d5, digit_char d6]"
proof -
  define n1 where "n1 = 16 * 1 + d1"
  define n2 where "n2 = 16 * n1 + d2"
  define n3 where "n3 = 16 * n2 + d3"
  define n4 where "n4 = 16 * n3 + d4"
  define n5 where "n5 = 16 * n4 + d5"
  have pos: "0 < n1" "0 < n2" "0 < n3" "0 < n4" "0 < n5"
    by (simp_all add: n1_def n2_def n3_def n4_def n5_def)
  have "digits16 n1 = [digit_char 1, digit_char d1]"
    unfolding n1_def using digits16_step [of 1 d1] assms(1) by (simp add: digits16_small)
  then have "digits16 n2 = [digit_char 1, digit_char d1, digit_char d2]"
    unfolding n2_def using digits16_step [of n1 d2] pos assms(2) by simp
  then have "digits16 n3 = [digit_char 1, digit_char d1, digit_char d2, digit_char d3]"
    unfolding n3_def using digits16_step [of n2 d3] pos assms(3) by simp
  then have "digits16 n4 =
      [digit_char 1, digit_char d1, digit_char d2, digit_char d3, digit_char d4]"
    unfolding n4_def using digits16_step [of n3 d4] pos assms(4) by simp
  then have "digits16 n5 =
      [digit_char 1, digit_char d1, digit_char d2, digit_char d3, digit_char d4, digit_char d5]"
    unfolding n5_def using digits16_step [of n4 d5] pos assms(5) by simp
  then have "digits16 (16 * n5 + d6) =
      [digit_char 1, digit_char d1, digit_char d2, digit_char d3, digit_char d4, digit_char d5,
       digit_char d6]"
    using digits16_step [of n5 d6] pos assms(6) by simp
  then show ?thesis
    unfolding n1_def n2_def n3_def n4_def n5_def .
qed

lemma split16: "(n::nat) = 16 * (n div 16) + n mod 16"
  by simp

lemma digits16_channels:
  assumes "r < 256" "g < 256" "b < 256"
  shows "digits16 (16777216 + r * 65536 + g * 256 + b) =
     [digit_char 1, digit_char (r div 16), digit_char (r mod 16),
      digit_char (g div 16), digit_char (g mod 16),
      digit_char (b div 16), digit_char (b mod 16)]"
proof -
  define r1 r2 g1 g2 b1 b2
    where "r1 = r div 16" and "r2 = r mod 16" and "g1 = g div 16" and "g2 = g mod 16"
      and "b1 = b div 16" and "b2 = b mod 16"
  have eqs: "r = 16 * r1 + r2" "g = 16 * g1 + g2" "b = 16 * b1 + b2"
    unfolding r1_def r2_def g1_def g2_def b1_def b2_def by (rule split16)+
  have lt: "r1 < 16" "r2 < 16" "g1 < 16" "g2 < 16" "b1 < 16" "b2 < 16"
    using assms unfolding r1_def r2_def g1_def g2_def b1_def b2_def by simp_all
  have "16777216 + r * 65536 + g * 256 + b =
      16 * (16 * (16 * (16 * (16 * (16 * 1 + r1) + r2) + g1) + g2) + b1) + b2"
    unfolding eqs by simp
  then show ?thesis
    using digits16_seven [OF lt] by (simp only: r1_def r2_def g1_def g2_def b1_def b2_def)
qed

lemma hash_not_hex: "\<not> is_hex_digit CHR ''#''"
  by (simp add: is_hex_digit_def lower_char_def)

lemma lt16_cases:
  "(d::nat) < 16 \<Longrightarrow> d = 0 \<or> d = 1 \<or> d = 2 \<or> d = 3 \<or> d = 4 \<or> d = 5 \<or> d = 6 \<or> d = 7
     \<or> d = 8 \<or> d = 9 \<or> d = 10 \<or> d = 11 \<or> d = 12 \<or> d = 13 \<or> d = 14 \<or> d = 15"
  by arith

lemma digit_char_code:
  assumes "d < 16"
  shows "of_char (digit_char d) = (if d < 10 then d + 48 else d + 87)"
  using lt16_cases [OF assms] by (elim disjE) (simp_all add: digit_char_def)

lemma digit_char_lower:
  assumes "d < 16"
  shows "lower_char (digit_char d) = digit_char d"
  using digit_char_code [OF assms] assms by (simp add: lower_char_def Let_def split: if_splits)

lemma digit_char_hex:
  assumes "d < 16"
  shows "is_hex_digit (digit_char d)"
  using digit_char_code [OF assms] assms
  by (simp add: is_hex_digit_def digit_char_lower Let_def split: if_splits)

lemma digit_value_digit_char:
  assumes "d < 16"
  shows "digit_value (digit_char d) = int d"
  using digit_char_code [OF assms] assms
  by (simp add: digit_value_def digit_char_lower Let_def split: if_splits)

lemma of_char_lower:
  "of_char (lower_char ch) =
     (if 65 \<le> (of_char ch :: nat) \<and> (of_char ch :: nat) \<le> 90 then of_char ch + 32 else (of_char ch :: nat))"
  by (simp add: lower_char_def Let_def)

lemma digit_value_range:
  assumes "is_hex_digit ch"
  shows "0 \<le> digit_value ch \<and> digit_value ch < 16"
  using assms by (auto simp: is_hex_digit_def digit_value_def Let_def)

lemma digit_char_digit_value:
  assumes "is_hex_digit ch"
  shows "digit_char (nat (digit_value ch)) = lower_char ch"
proof -
  define d where "d = nat (digit_value ch)"
  have d: "d < 16" using digit_value_range [OF assms] unfolding d_def by linarith
  have "of_char (digit_char d) = (of_char (lower_char ch) :: nat)"
    using assms d unfolding digit_char_code [OF d]
    by (auto simp: d_def is_hex_digit_def digit_value_def Let_def)
  then have "char_of (of_char (digit_char d) :: nat) = char_of (of_char (lower_char ch) :: nat)"
    by simp
  then show ?thesis by (simp add: d_def)
qed

lemma shorthand_groups_hash: "shorthand_groups (CHR ''#'' # t) = None"
  by (cases "CHR ''#'' # t" rule: shorthand_groups.cases) (simp_all add: hash_not_hex)

lemma full_groups_hash: "full_groups (CHR ''#'' # t) = None"
  by (cases "CHR ''#'' # t" rule: full_groups.cases) (simp_all add: hash_not_hex)

lemma first_match_opt_hash:
  assumes "\<And>t. f (CHR ''#'' # t) = None"
  shows "first_match f (opt_hash x) = f (strip_hash x)"
  using assms by (cases x) (auto simp: strip_hash_def split: option.splits)

lemma shorthand_groups_Some:
  "shorthand_groups s = Some (r, g, b) \<longleftrightarrow>
     s = [r, g, b] \<and> is_hex_digit r \<and> is_hex_digit g \<and> is_hex_digit b"
  by (cases s rule: shorthand_groups.cases) auto

lemma full_groups_Some:
  "full_groups s = Some (r, g, b) \<longleftrightarrow>
     (\<exists>r1 r2 g1 g2 b1 b2. s = [r1, r2, g1, g2, b1, b2] \<and> r = [r1, r2] \<and> g = [g1, g2]
        \<and> b = [b1, b2] \<and> list_all is_hex_digit s)"
  by (cases s rule: full_groups.cases) auto

lemma expand_shorthand_eq:
  "expand_shorthand x =
     (case shorthand_groups (strip_hash x) of Some (r, g, b) \<Rightarrow> [r, r, g, g, b, b] | None \<Rightarrow> x)"
  by (simp add: expand_shorthand_def first_match_opt_hash shorthand_groups_hash)

lemma hexToRgb_eq:
  "hexToRgb x =
     (case full_groups (strip_hash (expand_shorthand x)) of
        Some (r, g, b) \<Rightarrow> Some \<lparr>rgb_r = parseInt16 r, rgb_g = parseInt16 g, rgb_b = parseInt16 b\<rparr>
      | None \<Rightarrow> None)"
  by (simp add: hexToRgb_def first_match_opt_hash full_groups_hash)

lemma strip_hash_hex: "is_hex_digit ch \<Longrightarrow> strip_hash (ch # t) = ch # t"
  using hash_not_hex by (auto simp: strip_hash_def)

lemma strip_hash_hash: "strip_hash (CHR ''#'' # t) = t"
  by (simp add: strip_hash_def)

lemma strip_hash_cases: "strip_hash x = x \<or> x = CHR ''#'' # strip_hash x"
  by (cases x) (simp_all add: strip_hash_def)

lemma hexToRgb_short:
  assumes "is_hex_digit r" "is_hex_digit g" "is_hex_digit b"
    and "x = [r, g, b] \<or> x = CHR ''#'' # [r, g, b]"
  shows "hexToRgb x = Some \<lparr>rgb_r = parseInt16 [r, r], rgb_g = parseInt16 [g, g],
    rgb_b = parseInt16 [b, b]\<rparr>"
proof -
  have "strip_hash x = [r, g, b]"
    using assms by (auto simp: strip_hash_hex strip_hash_hash)
  then have "expand_shorthand x = [r, r, g, g, b, b]"
    using assms by (simp add: expand_shorthand_eq)
  then show ?thesis
    using assms by (simp add: hexToRgb_eq strip_hash_hex)
qed

lemma hexToRgb_full:
  assumes "list_all is_hex_digit [r1, r2, g1, g2, b1, b2]"
    and "x = [r1, r2, g1, g2, b1, b2] \<or> x = CHR ''#'' # [r1, r2, g1, g2, b1, b2]"
  shows "hexToRgb x = Some \<lparr>rgb_r = parseInt16 [r1, r2], rgb_g = parseInt16 [g1, g2],
    rgb_b = parseInt16 [b1, b2]\<rparr>"
proof -
  have s: "strip_hash x = [r1, r2, g1, g2, b1, b2]"
    using assms by (auto simp: strip_hash_hex strip_hash_hash)
  then have "shorthand_groups (strip_hash x) = None" by simp
  then have "expand_shorthand x = x"
    by (simp add: expand_shorthand_eq)
  then show ?thesis
    using assms(1) s by (simp add: hexToRgb_eq)
qed

lemma hexToRgb_Some_imp:
  assumes "hexToRgb x = Some c"
  shows "\<exists>ds. (x = ds \<or> x = CHR ''#'' # ds) \<and> (length ds = 3 \<or> length ds = 6)
    \<and> list_all is_hex_digit ds"
proof (cases "shorthand_groups (strip_hash x)")
  case (Some t)
  obtain r g b where t: "t = (r, g, b)" by (cases t)
  with Some have "strip_hash x = [r, g, b]" "list_all is_hex_digit [r, g, b]"
    by (simp_all add: shorthand_groups_Some)
  then show ?thesis
    using strip_hash_cases [of x] by (intro exI [of _ "[r, g, b]"]) auto
next
  case None
  then have e: "expand_shorthand x = x" by (simp add: expand_shorthand_eq)
  from assms obtain r g b where "full_groups (strip_hash x) = Some (r, g, b)"
    by (auto simp: hexToRgb_eq e split: option.splits)
  then have "length (strip_hash x) = 6" "list_all is_hex_digit (strip_hash x)"
    by (auto simp: full_groups_Some)
  then show ?thesis
    using strip_hash_cases [of x] by (intro exI [of _ "strip_hash x"]) auto
qed

lemma length3_conv: "length ds = 3 \<longleftrightarrow> (\<exists>a b c. ds = [a, b, c])"
  by (auto simp: length_Suc_conv eval_nat_numeral)

lemma length6_conv: "length ds = 6 \<longleftrightarrow> (\<exists>a b c d e f. ds = [a, b, c, d, e, f])"
proof
  assume "length ds = 6"
  then obtain a t where 1: "ds = a # t" "length t = 5" by (cases ds) auto
  then obtain b u where 2: "t = b # u" "length u = 4" by (cases t) auto
  then obtain c v where 3: "u = c # v" "length v = 3" by (cases u) auto
  then obtain d e f where "v = [d, e, f]" by (auto simp: length3_conv)
  with 1 2 3 show "\<exists>a b c d e f. ds = [a, b, c, d, e, f]" by simp
next
  assume "\<exists>a b c d e f. ds = [a, b, c, d, e, f]"
  then show "length ds = 6" by auto
qed

lemma hexToRgb_accepts:
  assumes "x = ds \<or> x = CHR ''#'' # ds" "length ds = 3 \<or> length ds = 6"
    "list_all is_hex_digit ds"
  shows "\<exists>c. hexToRgb x = Some c"
proof -
  from assms(2) show ?thesis
  proof
    assume "length ds = 3"
    then obtain a b c where "ds = [a, b, c]" by (auto simp: length3_conv)
    then show ?thesis using assms(1,3) hexToRgb_short [of a b c x] by auto
  next
    assume "length ds = 6"
    then obtain a b c d e f where "ds = [a, b, c, d, e, f]" by (auto simp: length6_conv)
    then show ?thesis using assms(1,3) hexToRgb_full [of a b c d e f x] by auto
  qed
qed

text \<open>
  Claim C5. \<open>hexToRgb\<close> returns a color exactly for the strings that are, after an
  optional leading \<open>#\<close>, three or six hexadecimal digits of either case, and \<open>None\<close>
  (the source's \<^verbatim>\<open>null\<close>) for every other string. Three digits parse to the same
  color as the six digits obtained by writing each digit twice, with or without the
  \<open>#\<close>; in particular \<open>#0f0\<close> parses as \<open>#00ff00\<close>, to the color (0, 255, 0).
\<close>

theorem hexToRgb_contract:
  "(hexToRgb x \<noteq> None \<longleftrightarrow>
      (\<exists>ds. (x = ds \<or> x = CHR ''#'' # ds) \<and> (length ds = 3 \<or> length ds = 6)
         \<and> list_all is_hex_digit ds))
   \<and> (is_hex_digit r \<and> is_hex_digit g \<and> is_hex_digit b \<longrightarrow>
        hexToRgb [r, g, b] = hexToRgb [r, r, g, g, b, b]
      \<and> hexToRgb (CHR ''#'' # [r, g, b]) = hexToRgb (CHR ''#'' # [r, r, g, g, b, b])
      \<and> hexToRgb [r, g, b] = hexToRgb (CHR ''#'' # [r, g, b])
      \<and> hexToRgb [r, g, b] \<noteq> None)
   \<and> hexToRgb ''#0f0'' = hexToRgb ''#00ff00''
   \<and> hexToRgb ''#0f0'' = Some \<lparr>rgb_r = 0, rgb_g = 255, rgb_b = 0\<rparr>"
proof -
  have 1: "hexToRgb x \<noteq> None \<longleftrightarrow>
      (\<exists>ds. (x = ds \<or> x = CHR ''#'' # ds) \<and> (length ds = 3 \<or> length ds = 6)
         \<and> list_all is_hex_digit ds)"
    using hexToRgb_Some_imp [of x] hexToRgb_accepts [of x] by (cases "hexToRgb x") auto
  have 2: "hexToRgb [r, g, b] = hexToRgb [r, r, g, g, b, b]
      \<and> hexToRgb (CHR ''#'' # [r, g, b]) = hexToRgb (CHR ''#'' # [r, r, g, g, b, b])
      \<and> hexToRgb [r, g, b] = hexToRgb (CHR ''#'' # [r, g, b])
      \<and> hexToRgb [r, g, b] \<noteq> None"
    if "is_hex_digit r \<and> is_hex_digit g \<and> is_hex_digit b"
    using that hexToRgb_short [of r g b] hexToRgb_full [of r r g g b b] by simp
  have 3: "hexToRgb ''#0f0'' = Some \<lparr>rgb_r = 0, rgb_g = 255, rgb_b = 0\<rparr>"
    by (simp add: hexToRgb_def expand_shorthand_def is_hex_digit_def lower_char_def
        parseInt16_def digit_value_def)
  have 4: "hexToRgb ''#00ff00'' = Some \<lparr>rgb_r = 0, rgb_g = 255, rgb_b = 0\<rparr>"
    by (simp add: hexToRgb_def expand_shorthand_def is_hex_digit_def lower_char_def
        parseInt16_def digit_value_def)
  have 5: "hexToRgb ''#0f0'' = hexToRgb ''#00ff00''"
    by (simp only: 3 4)
  show ?thesis using 1 2 3 5 by blast
qed

theorem hexToRgb_contract_witness:
  "(is_hex_digit CHR ''A'' \<and> is_hex_digit CHR ''b'' \<and> is_hex_digit CHR ''c'')
   \<and> hexToRgb ''#Abc'' = hexToRgb ''#AAbbcc'' \<and> hexToRgb ''Abc'' \<noteq> None
   \<and> hexToRgb ''not-a-color'' = None"
proof -
  have h: "is_hex_digit CHR ''A'' \<and> is_hex_digit CHR ''b'' \<and> is_hex_digit CHR ''c''"
    by (simp add: is_hex_digit_def lower_char_def)
  have n: "hexToRgb ''not-a-color'' = None"
    by (simp add: hexToRgb_def expand_shorthand_def)
  from hexToRgb_contract [of "''Abc''" "CHR ''A''" "CHR ''b''" "CHR ''c''"] h
  have "hexToRgb ''#Abc'' = hexToRgb ''#AAbbcc''" "hexToRgb ''Abc'' \<noteq> None"
    by blast+
  with h n show ?thesis by blast
qed

lemma rgbToHex_digits:
  assumes "0 \<le> r" "r \<le> 255" "0 \<le> g" "g \<le> 255" "0 \<le> b" "b \<le> 255"
  shows "rgbToHex r g b =
     CHR ''#'' # [digit_char (nat r div 16), digit_char (nat r mod 16),
       digit_char (nat g div 16), digit_char (nat g mod 16),
       digit_char (nat b div 16), digit_char (nat b mod 16)]"
proof -
  have sum: "shl 1 24 + shl r 16 + shl g 8 + b = 16777216 + r * 65536 + g * 256 + b"
    using assms by (intro shl_channels)
  have nn: "\<not> 16777216 + r * 65536 + g * 256 + b < 0"
    using assms by simp
  have "nat (16777216 + r * 65536 + g * 256 + b) =
      16777216 + nat r * 65536 + nat g * 256 + nat b"
    using assms by (simp add: nat_add_distrib nat_mult_distrib)
  then have "toString16 (16777216 + r * 65536 + g * 256 + b) =
      digits16 (16777216 + nat r * 65536 + nat g * 256 + nat b)"
    using nn by (simp add: toString16_def)
  also have "\<dots> = [digit_char 1, digit_char (nat r div 16), digit_char (nat r mod 16),
      digit_char (nat g div 16), digit_char (nat g mod 16),
      digit_char (nat b div 16), digit_char (nat b mod 16)]"
    using assms by (intro digits16_channels) simp_all
  finally show ?thesis
    by (simp add: rgbToHex_def sum padStart_def)
qed

lemma parseInt16_pair: "parseInt16 [a, b] = 16 * digit_value a + digit_value b"
  by (simp add: parseInt16_def)

lemma parseInt16_digit_chars:
  assumes "0 \<le> v" "v \<le> 255"
  shows "parseInt16 [digit_char (nat v div 16), digit_char (nat v mod 16)] = v"
proof -
  have "nat v div 16 < 16" "nat v mod 16 < 16" using assms by simp_all
  then have "parseInt16 [digit_char (nat v div 16), digit_char (nat v mod 16)] =
      16 * int (nat v div 16) + int (nat v mod 16)"
    by (simp add: parseInt16_pair digit_value_digit_char)
  also have "\<dots> = int (16 * (nat v div 16) + nat v mod 16)"
    by (simp only: of_nat_add of_nat_mult of_nat_numeral)
  also have "\<dots> = int (nat v)"
    by (simp only: mult_div_mod_eq)
  also have "\<dots> = v" using assms(1) by simp
  finally show ?thesis .
qed

lemma hexToRgb_rgbToHex:
  assumes "0 \<le> r" "r \<le> 255" "0 \<le> g" "g \<le> 255" "0 \<le> b" "b \<le> 255"
  shows "hexToRgb (rgbToHex r g b) = Some \<lparr>rgb_r = r, rgb_g = g, rgb_b = b\<rparr>"
proof -
  have lt: "nat r div 16 < 16" "nat r mod 16 < 16" "nat g div 16 < 16" "nat g mod 16 < 16"
    "nat b div 16 < 16" "nat b mod 16 < 16"
    using assms by simp_all
  have "hexToRgb (rgbToHex r g b) =
      Some \<lparr>rgb_r = parseInt16 [digit_char (nat r div 16), digit_char (nat r mod 16)],
        rgb_g = parseInt16 [digit_char (nat g div 16), digit_char (nat g mod 16)],
        rgb_b = parseInt16 [digit_char (nat b div 16), digit_char (nat b mod 16)]\<rparr>"
    unfolding rgbToHex_digits [OF assms]
    by (rule hexToRgb_full) (simp_all add: lt digit_char_hex)
  then show ?thesis
    using assms by (simp add: parseInt16_digit_chars)
qed

lemma parseInt16_hex_pair:
  assumes "is_hex_digit a" "is_hex_digit b"
  shows "0 \<le> parseInt16 [a, b]" "parseInt16 [a, b] \<le> 255"
    "digit_char (nat (parseInt16 [a, b]) div 16) = lower_char a"
    "digit_char (nat (parseInt16 [a, b]) mod 16) = lower_char b"
proof -
  define da db where "da = nat (digit_value a)" and "db = nat (digit_value b)"
  have d: "da < 16" "db < 16" "digit_value a = int da" "digit_value b = int db"
    using digit_value_range [OF assms(1)] digit_value_range [OF assms(2)]
    unfolding da_def db_def by linarith+
  have p: "parseInt16 [a, b] = int (16 * da + db)"
    by (simp add: parseInt16_pair d)
  show "0 \<le> parseInt16 [a, b]" "parseInt16 [a, b] \<le> 255"
    using d(1,2) unfolding p by simp_all
  have "nat (parseInt16 [a, b]) = 16 * da + db"
    unfolding p by (rule nat_int)
  then have "nat (parseInt16 [a, b]) div 16 = da" "nat (parseInt16 [a, b]) mod 16 = db"
    using d(1,2) by simp_all
  then show "digit_char (nat (parseInt16 [a, b]) div 16) = lower_char a"
    "digit_char (nat (parseInt16 [a, b]) mod 16) = lower_char b"
    using digit_char_digit_value [OF assms(1)] digit_char_digit_value [OF assms(2)]
    by (simp_all add: da_def db_def)
qed

lemma rgbToHex_hexToRgb:
  assumes "length ds = 6" "list_all is_hex_digit ds" "x = ds \<or> x = CHR ''#'' # ds"
  shows "\<exists>c. hexToRgb x = Some c
    \<and> rgbToHex (rgb_r c) (rgb_g c) (rgb_b c) = CHR ''#'' # map lower_char ds"
proof -
  from assms(1) obtain r1 r2 g1 g2 b1 b2 where ds: "ds = [r1, r2, g1, g2, b1, b2]"
    by (auto simp: length6_conv)
  have hx: "is_hex_digit r1" "is_hex_digit r2" "is_hex_digit g1" "is_hex_digit g2"
    "is_hex_digit b1" "is_hex_digit b2"
    using assms(2) by (simp_all add: ds)
  let ?c = "\<lparr>rgb_r = parseInt16 [r1, r2], rgb_g = parseInt16 [g1, g2],
    rgb_b = parseInt16 [b1, b2]\<rparr>"
  have "hexToRgb x = Some ?c"
    using assms(2,3) by (intro hexToRgb_full) (simp_all add: ds)
  moreover have "rgbToHex (rgb_r ?c) (rgb_g ?c) (rgb_b ?c) = CHR ''#'' # map lower_char ds"
    using parseInt16_hex_pair [OF hx(1,2)] parseInt16_hex_pair [OF hx(3,4)]
      parseInt16_hex_pair [OF hx(5,6)]
    by (simp add: rgbToHex_digits ds)
  ultimately show ?thesis by blast
qed

text \<open>
  Claim C6. For every string \<open>x\<close> of six hexadecimal digits \<open>ds\<close>, with or without a
  leading \<open>#\<close>, \<open>hexToRgb\<close> succeeds and \<open>rgbToHex\<close> of the three channels is
  \<open>#\<close> followed by the six digits in lower case: \<open>x\<close> up to letter case, prefixed and
  zero-padded. Conversely, for channels in 0..255 \<open>rgbToHex\<close> returns a \<open>#\<close> and six
  characters that \<open>hexToRgb\<close> parses back to the same three channels.
\<close>

theorem hex_round_trip:
  "(length ds = 6 \<and> list_all is_hex_digit ds \<and> (x = ds \<or> x = CHR ''#'' # ds) \<longrightarrow>
      (\<exists>c. hexToRgb x = Some c
         \<and> rgbToHex (rgb_r c) (rgb_g c) (rgb_b c) = CHR ''#'' # map lower_char ds))
   \<and> (0 \<le> r \<and> r \<le> 255 \<and> 0 \<le> g \<and> g \<le> 255 \<and> 0 \<le> b \<and> b \<le> 255 \<longrightarrow>
      hexToRgb (rgbToHex r g b) = Some \<lparr>rgb_r = r, rgb_g = g, rgb_b = b\<rparr>
      \<and> length (rgbToHex r g b) = 7 \<and> hd (rgbToHex r g b) = CHR ''#'')"
proof (intro conjI impI)
  assume "length ds = 6 \<and> list_all is_hex_digit ds \<and> (x = ds \<or> x = CHR ''#'' # ds)"
  then show "\<exists>c. hexToRgb x = Some c
         \<and> rgbToHex (rgb_r c) (rgb_g c) (rgb_b c) = CHR ''#'' # map lower_char ds"
    using rgbToHex_hexToRgb [of ds x] by blast
next
  assume a: "0 \<le> r \<and> r \<le> 255 \<and> 0 \<le> g \<and> g \<le> 255 \<and> 0 \<le> b \<and> b \<le> 255"
  then show "hexToRgb (rgbToHex r g b) = Some \<lparr>rgb_r = r, rgb_g = g, rgb_b = b\<rparr>"
    by (intro hexToRgb_rgbToHex) simp_all
  from a have "rgbToHex r g b =
     CHR ''#'' # [digit_char (nat r div 16), digit_char (nat r mod 16),
       digit_char (nat g div 16), digit_char (nat g mod 16),
       digit_char (nat b div 16), digit_char (nat b mod 16)]"
    by (intro rgbToHex_digits) simp_all
  then show "length (rgbToHex r g b) = 7" "hd (rgbToHex r g b) = CHR ''#''"
    by simp_all
qed

theorem hex_round_trip_witness:
  "(\<exists>c. hexToRgb ''#3B82F6'' = Some c
      \<and> rgbToHex (rgb_r c) (rgb_g c) (rgb_b c) = ''#3b82f6'')
   \<and> hexToRgb (rgbToHex 59 130 246) = Some \<lparr>rgb_r = 59, rgb_g = 130, rgb_b = 246\<rparr>"
proof -
  have h: "length ''3B82F6'' = 6 \<and> list_all is_hex_digit ''3B82F6''
      \<and> (''#3B82F6'' = ''3B82F6'' \<or> ''#3B82F6'' = CHR ''#'' # ''3B82F6'')"
    by (simp add: is_hex_digit_def lower_char_def)
  have l: "map lower_char ''3B82F6'' = ''3b82f6''"
    by (simp add: lower_char_def char_of_def bit_Suc_0_iff)
  from hex_round_trip [of "''3B82F6''" "''#3B82F6''" 59 130 246] h l
  show ?thesis by simp
qed

section \<open>Properties of the rounding\<close>

lemma pow2_powr: "pow2 k = 2 powr (of_int k)"
proof (cases "0 \<le> k")
  case True
  then have "2 powr (of_int k) = (2::real) powr (real (nat k))" by simp
  also have "\<dots> = 2 ^ nat k" by (simp add: powr_realpow)
  finally show ?thesis using True by (simp add: pow2_def)
next
  case False
  then have "2 powr (of_int k) = (2::real) powr (- real (nat (- k)))" by simp
  also have "\<dots> = 1 / 2 ^ nat (- k)"
    by (simp only: powr_minus powr_realpow [of 2, simplified] inverse_eq_divide)
  finally show ?thesis using False by (simp add: pow2_def)
qed

lemma pow2_pos [simp]: "0 < pow2 k"
  by (simp add: pow2_powr)

lemma pow2_nonneg [simp]: "0 \<le> pow2 k"
  using pow2_pos [of k] by (rule less_imp_le)

lemma pow2_neq0 [simp]: "pow2 k \<noteq> 0"
  using pow2_pos [of k] by (rule less_imp_neq [symmetric])

lemma pow2_add: "pow2 (a + b) = pow2 a * pow2 b"
  by (simp add: pow2_powr powr_add)

lemma pow2_mono: "a \<le> b \<Longrightarrow> pow2 a \<le> pow2 b"
  by (simp add: pow2_powr)

lemma pow2_strict_mono: "a < b \<Longrightarrow> pow2 a < pow2 b"
  by (simp add: pow2_powr)

lemma pow2_nat: "pow2 (int n) = 2 ^ n"
  by (simp add: pow2_def)

lemma pow2_0 [simp]: "pow2 0 = 1"
  by (simp add: pow2_def)

lemma rne_of_int [simp]: "rne (of_int k) = k"
  by (simp add: rne_def)

lemma rne_bounds: "\<lfloor>y\<rfloor> \<le> rne y" "rne y \<le> \<lfloor>y\<rfloor> + 1"
  by (simp_all add: rne_def Let_def)

lemma rne_mono:
  assumes "a \<le> b"
  shows "rne a \<le> rne b"
proof (cases "\<lfloor>a\<rfloor> = \<lfloor>b\<rfloor>")
  case True
  then show ?thesis using assms by (auto simp: rne_def Let_def)
next
  case False
  then have "\<lfloor>a\<rfloor> < \<lfloor>b\<rfloor>" using floor_mono [OF assms] by simp
  then show ?thesis using rne_bounds(2) [of a] rne_bounds(1) [of b] by linarith
qed

lemma rne_err: "\<bar>of_int (rne y) - y\<bar> \<le> 1 / 2"
proof -
  have "of_int \<lfloor>y\<rfloor> \<le> y" "y < of_int \<lfloor>y\<rfloor> + 1" by linarith+
  then show ?thesis by (auto simp: rne_def Let_def)
qed

lemma rne_minus: "rne (- y) = - rne y"
proof (cases "y = of_int \<lfloor>y\<rfloor>")
  case True
  then obtain k where "y = of_int k" ..
  then have "- y = of_int (- k)" by simp
  then show ?thesis unfolding \<open>y = of_int k\<close> by (simp only: rne_of_int)
next
  case False
  then have lt: "of_int \<lfloor>y\<rfloor> < y" "y < of_int \<lfloor>y\<rfloor> + 1" by linarith+
  then have fl: "\<lfloor>- y\<rfloor> = - \<lfloor>y\<rfloor> - 1" unfolding floor_eq_iff
    using of_int_floor_le [of y] floor_correct [of y] by (simp del: of_int_floor_le) linarith
  show ?thesis using lt by (auto simp: rne_def Let_def fl)
qed

lemma floor_log2_bounds:
  assumes "x \<noteq> 0"
  shows "pow2 \<lfloor>log 2 \<bar>x\<bar>\<rfloor> \<le> \<bar>x\<bar>" "\<bar>x\<bar> < pow2 (\<lfloor>log 2 \<bar>x\<bar>\<rfloor> + 1)"
proof -
  have "0 < \<bar>x\<bar>" using assms by simp
  then have "2 powr (of_int \<lfloor>log 2 \<bar>x\<bar>\<rfloor>) \<le> \<bar>x\<bar>
      \<and> \<bar>x\<bar> < 2 powr (of_int (\<lfloor>log 2 \<bar>x\<bar>\<rfloor> + 1))"
    using floor_log_eq_powr_iff [of "\<bar>x\<bar>" 2 "\<lfloor>log 2 \<bar>x\<bar>\<rfloor>"] by simp
  then show "pow2 \<lfloor>log 2 \<bar>x\<bar>\<rfloor> \<le> \<bar>x\<bar>" "\<bar>x\<bar> < pow2 (\<lfloor>log 2 \<bar>x\<bar>\<rfloor> + 1)"
    by (simp_all add: pow2_powr)
qed

lemma floor_log2_eq:
  assumes "pow2 k \<le> \<bar>x\<bar>" "\<bar>x\<bar> < pow2 (k + 1)"
  shows "\<lfloor>log 2 \<bar>x\<bar>\<rfloor> = k"
proof -
  have "0 < \<bar>x\<bar>" using assms(1) pow2_pos [of k] by linarith
  then show ?thesis
    using floor_log_eq_powr_iff [of "\<bar>x\<bar>" 2 k] assms by (simp add: pow2_powr)
qed

lemma floor_log2_less:
  assumes "x \<noteq> 0" "\<bar>x\<bar> < pow2 k"
  shows "\<lfloor>log 2 \<bar>x\<bar>\<rfloor> < k"
proof (rule ccontr)
  assume "\<not> \<lfloor>log 2 \<bar>x\<bar>\<rfloor> < k"
  then have "pow2 k \<le> pow2 \<lfloor>log 2 \<bar>x\<bar>\<rfloor>" by (intro pow2_mono) simp
  then show False using floor_log2_bounds(1) [OF assms(1)] assms(2) by linarith
qed

lemma floor_log2_ge:
  assumes "pow2 k \<le> \<bar>x\<bar>"
  shows "k \<le> \<lfloor>log 2 \<bar>x\<bar>\<rfloor>"
proof (rule ccontr)
  assume "\<not> k \<le> \<lfloor>log 2 \<bar>x\<bar>\<rfloor>"
  then have "pow2 (\<lfloor>log 2 \<bar>x\<bar>\<rfloor> + 1) \<le> pow2 k" by (intro pow2_mono) simp
  moreover have "0 < \<bar>x\<bar>" using pow2_pos [of k] assms by (rule less_le_trans)
  then have "x \<noteq> 0" by simp
  ultimately show False using floor_log2_bounds(2) [of x] assms by linarith
qed

lemma ilog2_eq:
  assumes "x \<noteq> 0"
  shows "ilog2 x = \<lfloor>log 2 \<bar>x\<bar>\<rfloor>"
proof (cases "1 \<le> \<bar>x\<bar>")
  case True
  define n where "n = \<lfloor>\<bar>x\<bar>\<rfloor>"
  define k where "k = bitlen n - 1"
  have n: "0 < n" using True by (simp add: n_def)
  have k: "0 \<le> k" using bitlen_bounds [OF n] n by (cases "bitlen n \<le> 0") (simp_all add: k_def)
  have b: "2 ^ nat k \<le> n" "n < 2 ^ nat (k + 1)"
    using bitlen_bounds [OF n] by (simp_all add: k_def)
  have "of_int (2 ^ nat k) \<le> (of_int n :: real)" using b(1) by (simp only: of_int_le_iff)
  also have "of_int n \<le> \<bar>x\<bar>" by (simp add: n_def)
  finally have 1: "pow2 k \<le> \<bar>x\<bar>" using k by (simp add: pow2_def)
  have "n + 1 \<le> 2 ^ nat (k + 1)" using b(2) by simp
  then have "(of_int (n + 1) :: real) \<le> of_int (2 ^ nat (k + 1))" by (simp only: of_int_le_iff)
  moreover have "\<bar>x\<bar> < of_int (n + 1)" unfolding n_def by linarith
  ultimately have 2: "\<bar>x\<bar> < pow2 (k + 1)" using k by (simp add: pow2_def)
  show ?thesis using floor_log2_eq [OF 1 2] True by (simp add: ilog2_def n_def k_def)
next
  case False
  define z where "z = 1 / \<bar>x\<bar>"
  define m where "m = \<lceil>z\<rceil> - 1"
  define b where "b = bitlen m"
  have x: "0 < \<bar>x\<bar>" "\<bar>x\<bar> < 1" using assms False by simp_all
  have z: "1 < z" using x by (simp add: z_def)
  have m: "0 < m" using z unfolding m_def by linarith
  have bb: "2 ^ nat (b - 1) \<le> m" "m < 2 ^ nat b"
    using bitlen_bounds [OF m] by (simp_all add: b_def)
  have b1: "1 \<le> b" using bb(2) m by (cases "b \<le> 0") simp_all
  have "z \<le> of_int (m + 1)" unfolding m_def by simp
  also have "(of_int (m + 1) :: real) \<le> of_int (2 ^ nat b)"
    using bb(2) by (simp only: of_int_le_iff)
  finally have zu: "z \<le> 2 ^ nat b" by simp
  have "(of_int (2 ^ nat (b - 1)) :: real) \<le> of_int m" using bb(1) by (simp only: of_int_le_iff)
  also have "of_int m < z" unfolding m_def by linarith
  finally have zl: "2 ^ nat (b - 1) < z" by simp
  have 1: "pow2 (- b) \<le> \<bar>x\<bar>"
    using zu x(1) b1 by (simp add: pow2_def z_def field_simps)
  have p: "pow2 (- b + 1) = 1 / 2 ^ nat (b - 1)"
    using b1 by (cases "b = 1") (simp_all add: pow2_def)
  have "\<bar>x\<bar> * 2 ^ nat (b - 1) < 1"
    using zl x(1) by (simp add: z_def field_simps)
  then have "\<bar>x\<bar> < 1 / 2 ^ nat (b - 1)"
    by (simp add: pos_less_divide_eq)
  then have 2: "\<bar>x\<bar> < pow2 (- b + 1)"
    by (simp only: p)
  show ?thesis using floor_log2_eq [OF 1 2] False by (simp add: ilog2_def z_def m_def b_def)
qed

lemma expo_log:
  assumes "x \<noteq> 0"
  shows "expo x = max \<lfloor>log 2 \<bar>x\<bar>\<rfloor> (- 1022)"
  by (simp add: expo_def ilog2_eq [OF assms])

lemma expo_ge: "- 1022 \<le> expo x"
  by (simp add: expo_def)

lemma expo_upper:
  assumes "x \<noteq> 0"
  shows "\<bar>x\<bar> < pow2 (expo x + 1)"
proof -
  have "pow2 (\<lfloor>log 2 \<bar>x\<bar>\<rfloor> + 1) \<le> pow2 (expo x + 1)"
    by (intro pow2_mono) (simp add: expo_log [OF assms])
  then show ?thesis using floor_log2_bounds(2) [OF assms] by linarith
qed

lemma expo_lower:
  assumes "x \<noteq> 0" "- 1022 < expo x"
  shows "pow2 (expo x) \<le> \<bar>x\<bar>"
proof -
  have "expo x = \<lfloor>log 2 \<bar>x\<bar>\<rfloor>"
    using assms(2) by (simp add: expo_log [OF assms(1)] max_def split: if_splits)
  then show ?thesis using floor_log2_bounds(1) [OF assms(1)] by simp
qed

lemma expo_le:
  assumes "x \<noteq> 0" "\<bar>x\<bar> < pow2 (k + 1)" "- 1022 \<le> k"
  shows "expo x \<le> k"
  using floor_log2_less [OF assms(1,2)] assms(3) by (simp add: expo_log [OF assms(1)])

lemma expo_mono:
  assumes "x \<noteq> 0" "\<bar>x\<bar> \<le> \<bar>y\<bar>"
  shows "expo x \<le> expo y"
proof -
  have "y \<noteq> 0" using assms by auto
  have "\<bar>x\<bar> < pow2 (expo y + 1)" using expo_upper [OF \<open>y \<noteq> 0\<close>] assms(2) by linarith
  then show ?thesis using expo_le [OF assms(1) _ expo_ge] by simp
qed

lemma expo_minus [simp]: "expo (- x) = expo x"
  by (simp add: expo_def ilog2_def)

lemma fl_0 [simp]: "fl 0 = 0"
  by (simp add: fl_def)

lemma fl_minus: "fl (- x) = - fl x"
  by (simp add: fl_def rne_minus)

lemma pow2_split: "pow2 a = pow2 (a - b) * pow2 b"
  using pow2_add [of "a - b" b] by simp

lemma fl_pos_upper:
  assumes "0 < x"
  shows "fl x \<le> pow2 (expo x + 1)"
proof -
  let ?u = "pow2 (expo x - 52)"
  have "x \<le> pow2 (expo x + 1)" using expo_upper [of x] assms by simp
  also have "\<dots> = pow2 53 * ?u" using pow2_add [of 53 "expo x - 52"] by (simp add: add.commute)
  finally have "x / ?u \<le> pow2 53" by (simp add: pos_divide_le_eq)
  also have "pow2 53 = of_int (2 ^ 53)" by (simp add: pow2_def)
  finally have "rne (x / ?u) \<le> rne (of_int (2 ^ 53))" by (rule rne_mono)
  then have "of_int (rne (x / ?u)) \<le> (of_int (2 ^ 53) :: real)" by (simp only: rne_of_int of_int_le_iff)
  then have "of_int (rne (x / ?u)) * ?u \<le> of_int (2 ^ 53) * ?u"
    by (intro mult_right_mono) simp_all
  also have "of_int (2 ^ 53) * ?u = pow2 (expo x + 1)"
    using pow2_add [of 53 "expo x - 52"] by (simp add: pow2_def add.commute)
  finally show ?thesis using assms by (simp add: fl_def)
qed

lemma fl_pos_lower:
  assumes "0 < x" "pow2 (expo x) \<le> x"
  shows "pow2 (expo x) \<le> fl x"
proof -
  let ?u = "pow2 (expo x - 52)"
  have e: "pow2 (expo x) = pow2 52 * ?u" using pow2_add [of 52 "expo x - 52"] by simp
  then have "pow2 52 \<le> x / ?u" using assms(2) by (simp add: pos_le_divide_eq)
  moreover have "pow2 52 = of_int (2 ^ 52)" by (simp add: pow2_def)
  ultimately have "rne (of_int (2 ^ 52)) \<le> rne (x / ?u)" by (intro rne_mono) simp
  then have "(of_int (2 ^ 52) :: real) \<le> of_int (rne (x / ?u))"
    by (simp only: rne_of_int of_int_le_iff)
  then have a: "of_int (2 ^ 52) * ?u \<le> of_int (rne (x / ?u)) * ?u"
    by (intro mult_right_mono) simp_all
  have b: "of_int (2 ^ 52) * ?u = pow2 (expo x)"
    using e by (simp add: pow2_def)
  have c: "fl x = of_int (rne (x / ?u)) * ?u"
    using assms(1) by (simp add: fl_def)
  from a b c show ?thesis by linarith
qed

lemma fl_nonneg:
  assumes "0 \<le> x"
  shows "0 \<le> fl x"
proof (cases "x = 0")
  case False
  have "rne 0 \<le> rne (x / pow2 (expo x - 52))" using assms by (intro rne_mono) simp
  moreover have "rne 0 = 0" using rne_of_int [of 0] by simp
  ultimately show ?thesis using False by (simp add: fl_def)
qed simp

lemma fl_mono_pos:
  assumes "0 < x" "x \<le> y"
  shows "fl x \<le> fl y"
proof (cases "expo x = expo y")
  case True
  have "x / pow2 (expo y - 52) \<le> y / pow2 (expo y - 52)"
    using assms by (simp add: divide_right_mono)
  then have "rne (x / pow2 (expo y - 52)) \<le> rne (y / pow2 (expo y - 52))" by (rule rne_mono)
  then have "of_int (rne (x / pow2 (expo y - 52))) * pow2 (expo y - 52)
      \<le> of_int (rne (y / pow2 (expo y - 52))) * pow2 (expo y - 52)"
    by (intro mult_right_mono) simp_all
  then show ?thesis using assms True by (simp add: fl_def)
next
  case False
  have "expo x \<le> expo y" using assms by (intro expo_mono) simp_all
  with False have lt: "expo x < expo y" by simp
  have y: "0 < y" using assms by simp
  have "- 1022 < expo y" using lt expo_ge [of x] by simp
  then have "pow2 (expo y) \<le> y" using expo_lower [of y] y by simp
  then have "pow2 (expo y) \<le> fl y" using fl_pos_lower [OF y] by simp
  moreover have "pow2 (expo x + 1) \<le> pow2 (expo y)" using lt by (intro pow2_mono) simp
  ultimately show ?thesis using fl_pos_upper [OF assms(1)] by linarith
qed

lemma fl_mono:
  assumes "x \<le> y"
  shows "fl x \<le> fl y"
proof -
  consider "0 < x" | "x \<le> 0" "0 \<le> y" | "y < 0" by linarith
  then show ?thesis
  proof cases
    case 1
    then show ?thesis using assms by (rule fl_mono_pos)
  next
    case 2
    then have "fl x \<le> 0" using fl_nonneg [of "- x"] by (simp add: fl_minus)
    moreover have "0 \<le> fl y" using 2 by (intro fl_nonneg)
    ultimately show ?thesis by simp
  next
    case 3
    then have "fl (- y) \<le> fl (- x)" using assms by (intro fl_mono_pos) simp_all
    then show ?thesis by (simp add: fl_minus)
  qed
qed

lemma fl_err:
  "\<bar>fl x - x\<bar> \<le> pow2 (expo x - 52) / 2"
proof (cases "x = 0")
  case False
  let ?u = "pow2 (expo x - 52)"
  have "fl x - x = (of_int (rne (x / ?u)) - x / ?u) * ?u"
    using False by (simp add: fl_def left_diff_distrib)
  then have "\<bar>fl x - x\<bar> = \<bar>of_int (rne (x / ?u)) - x / ?u\<bar> * ?u"
    by (simp add: abs_mult)
  also have "\<dots> \<le> 1 / 2 * ?u"
    by (intro mult_right_mono rne_err) simp
  finally show ?thesis by simp
qed simp

lemma fl_err_le:
  assumes "\<bar>x\<bar> \<le> pow2 k" "- 1022 \<le> k"
  shows "\<bar>fl x - x\<bar> \<le> pow2 (k - 53)"
proof (cases "x = 0")
  case False
  have "\<bar>x\<bar> < pow2 (k + 1)" using assms(1) pow2_strict_mono [of k "k + 1"] by simp
  then have "expo x \<le> k" using expo_le [OF False _ assms(2)] by simp
  then have "pow2 (expo x - 52) \<le> pow2 (k - 52)" by (intro pow2_mono) simp
  moreover have "pow2 (k - 52) = 2 * pow2 (k - 53)" using pow2_add [of 1 "k - 53"] by (simp add: pow2_def)
  ultimately show ?thesis using fl_err [of x] by linarith
qed (simp add: less_imp_le)

lemma fl_repr:
  assumes "\<bar>m\<bar> < 2 ^ 53" "- 1074 \<le> k"
  shows "fl (of_int m * pow2 k) = of_int m * pow2 k"
proof (cases "m = 0")
  case False
  define x :: real where "x = of_int m * pow2 k"
  define u where "u = pow2 (expo x - 52)"
  have x0: "x \<noteq> 0" using False by (simp add: x_def)
  have u0: "0 < u" by (simp add: u_def)
  have "\<bar>x\<bar> = of_int \<bar>m\<bar> * pow2 k" by (simp add: x_def abs_mult)
  also have "\<dots> < of_int (2 ^ 53) * pow2 k"
    using assms(1) by (intro mult_strict_right_mono) (simp_all only: of_int_less_iff pow2_pos)
  also have "\<dots> = pow2 (52 + k + 1)"
    using pow2_add [of 53 k] by (simp add: pow2_def add.commute)
  finally have "expo x \<le> 52 + k"
    using assms(2) by (intro expo_le [OF x0]) simp_all
  then have "k = int (nat (52 + k - expo x)) + (expo x - 52)" by simp
  then obtain j where j: "k = int j + (expo x - 52)" ..
  have pk: "pow2 k = 2 ^ j * u"
    using pow2_add [of "int j" "expo x - 52"] by (simp only: j [symmetric] pow2_nat u_def)
  have "x / u = of_int (m * 2 ^ j)"
    using u0 by (simp add: x_def pk)
  then have "rne (x / u) = m * 2 ^ j"
    by (simp only: rne_of_int)
  then have "fl x = of_int (m * 2 ^ j) * u"
    using x0 by (simp only: fl_def if_False u_def)
  also have "\<dots> = of_int m * (2 ^ j * u)" by simp
  finally show ?thesis by (simp only: pk x_def)
qed simp

lemma fl_of_int:
  assumes "\<bar>m\<bar> < 2 ^ 53"
  shows "fl (of_int m) = of_int m"
  using fl_repr [OF assms, of 0] by simp

lemma fl_1 [simp]: "fl 1 = 1"
  using fl_of_int [of 1] by simp

lemma rne_abs_le:
  assumes "\<bar>y\<bar> \<le> of_int n"
  shows "\<bar>rne y\<bar> \<le> n"
proof -
  have "rne y \<le> rne (of_int n)" using assms by (intro rne_mono) linarith
  moreover have "rne (of_int (- n)) \<le> rne y" using assms by (intro rne_mono) simp
  ultimately show ?thesis by (simp only: rne_of_int)
qed

lemma fl_idem [simp]: "fl (fl x) = fl x"
proof (cases "x = 0")
  case False
  let ?u = "pow2 (expo x - 52)"
  define M where "M = rne (x / ?u)"
  have flx: "fl x = of_int M * ?u" using False by (simp add: fl_def M_def)
  have "\<bar>x\<bar> \<le> pow2 (expo x + 1)" using expo_upper [OF False] by simp
  also have "\<dots> = pow2 53 * ?u" using pow2_add [of 53 "expo x - 52"] by (simp add: add.commute)
  finally have "\<bar>x / ?u\<bar> \<le> pow2 53" by (simp add: pos_divide_le_eq)
  also have "pow2 53 = of_int (2 ^ 53)" by (simp add: pow2_def)
  finally have M: "\<bar>M\<bar> \<le> 2 ^ 53" unfolding M_def by (rule rne_abs_le)
  have k1: "- 1074 \<le> expo x - 52" using expo_ge [of x] by simp
  show ?thesis
  proof (cases "\<bar>M\<bar> < 2 ^ 53")
    case True
    then show ?thesis unfolding flx using k1 by (rule fl_repr)
  next
    case False
    with M have M2: "M = 9007199254740992 \<or> M = - 9007199254740992" by simp linarith
    have "pow2 (1 + (expo x - 52)) = pow2 1 * ?u" by (rule pow2_add)
    then have u2: "pow2 (expo x - 51) = 2 * ?u" by (simp add: pow2_def)
    from M2 have "of_int M = 2 * (of_int (M div 2) :: real)" "\<bar>M div 2\<bar> < 2 ^ 53"
      by (elim disjE; simp)+
    then have "of_int M * ?u = of_int (M div 2) * pow2 (expo x - 51)"
      unfolding u2 by simp
    moreover have "- 1074 \<le> expo x - 51" using k1 by simp
    ultimately show ?thesis
      unfolding flx using fl_repr [OF \<open>\<bar>M div 2\<bar> < 2 ^ 53\<close>, of "expo x - 51"] by simp
  qed
qed simp

lemma rne_eqI:
  assumes "\<bar>y - of_int M\<bar> < 1 / 2"
  shows "rne y = M"
proof -
  from assms have "y - of_int M < 1 / 2 \<and> - (y - of_int M) < 1 / 2"
    by (simp only: abs_less_iff)
  then have b: "of_int M - 1 / 2 < y" "y < of_int M + 1 / 2"
    by linarith+
  then have "\<lfloor>y\<rfloor> = M \<or> \<lfloor>y\<rfloor> = M - 1" by linarith
  then show ?thesis
  proof
    assume f: "\<lfloor>y\<rfloor> = M"
    have "y - of_int M < 1 / 2" using b by linarith
    then show ?thesis using f by (simp add: rne_def Let_def)
  next
    assume f: "\<lfloor>y\<rfloor> = M - 1"
    have "1 / 2 < y - (of_int M - 1)" using b by linarith
    then show ?thesis using f by (simp add: rne_def Let_def)
  qed
qed

lemma rne_tieI:
  assumes "\<bar>y - of_int M\<bar> = 1 / 2" "even M"
  shows "rne y = M"
proof -
  from assms(1) have "y = of_int M + 1 / 2 \<or> y = of_int M - 1 / 2"
    by (simp only: abs_eq_iff') linarith
  then show ?thesis
  proof
    assume y: "y = of_int M + 1 / 2"
    then have "\<lfloor>y\<rfloor> = M" by linarith
    then show ?thesis using y assms(2) by (simp add: rne_def Let_def)
  next
    assume y: "y = of_int M - 1 / 2"
    then have f: "\<lfloor>y\<rfloor> = M - 1" by linarith
    have "y - of_int (M - 1) = 1 / 2" using y by simp
    then show ?thesis using f assms(2) by (simp add: rne_def Let_def)
  qed
qed

lemma fl_eqI:
  assumes "pow2 e \<le> \<bar>x\<bar>" "\<bar>x\<bar> < pow2 (e + 1)" "- 1022 \<le> e"
    and "\<bar>x / pow2 (e - 52) - of_int M\<bar> < 1 / 2
      \<or> \<bar>x / pow2 (e - 52) - of_int M\<bar> = 1 / 2 \<and> even M"
    and "z = of_int M * pow2 (e - 52)"
  shows "fl x = z"
proof -
  have "0 < \<bar>x\<bar>" using pow2_pos [of e] assms(1) by (rule less_le_trans)
  then have x0: "x \<noteq> 0" by simp
  have "expo x = e"
    using floor_log2_eq [OF assms(1,2)] assms(3) by (simp add: expo_log [OF x0])
  moreover have "rne (x / pow2 (e - 52)) = M"
    using assms(4) rne_eqI rne_tieI by blast
  ultimately show ?thesis
    using x0 assms(5) by (simp add: fl_def)
qed

section \<open>Properties of the message handler\<close>

subsection \<open>The search for the base weight\<close>

lemma closestWeight_Some:
  assumes "closestWeight L ws (bw, Some m) = (w0, d0)"
  shows "(w0 = bw \<and> d0 = Some m \<and> (\<forall>w \<in> set ws. m \<le> lightnessDiff L w))
    \<or> (\<exists>pre post. ws = pre @ w0 # post \<and> d0 = Some (lightnessDiff L w0)
          \<and> lightnessDiff L w0 < m
          \<and> (\<forall>w \<in> set pre. lightnessDiff L w0 < lightnessDiff L w)
          \<and> (\<forall>w \<in> set post. lightnessDiff L w0 \<le> lightnessDiff L w))"
  using assms
proof (induction ws arbitrary: bw m)
  case Nil
  then show ?case by simp
next
  case (Cons w ws)
  let ?d = "lightnessDiff L w"
  show ?case
  proof (cases "?d < m")
    case True
    with Cons.prems have "closestWeight L ws (w, Some ?d) = (w0, d0)" by simp
    from Cons.IH [OF this] show ?thesis
    proof
      assume a: "w0 = w \<and> d0 = Some ?d \<and> (\<forall>v \<in> set ws. ?d \<le> lightnessDiff L v)"
      then have "w # ws = [] @ w0 # ws \<and> d0 = Some (lightnessDiff L w0)
          \<and> lightnessDiff L w0 < m
          \<and> (\<forall>v \<in> set []. lightnessDiff L w0 < lightnessDiff L v)
          \<and> (\<forall>v \<in> set ws. lightnessDiff L w0 \<le> lightnessDiff L v)"
        using True by simp
      then show ?thesis by blast
    next
      assume "\<exists>pre post. ws = pre @ w0 # post \<and> d0 = Some (lightnessDiff L w0)
          \<and> lightnessDiff L w0 < ?d
          \<and> (\<forall>v \<in> set pre. lightnessDiff L w0 < lightnessDiff L v)
          \<and> (\<forall>v \<in> set post. lightnessDiff L w0 \<le> lightnessDiff L v)"
      then obtain pre post where p: "ws = pre @ w0 # post" "d0 = Some (lightnessDiff L w0)"
        "lightnessDiff L w0 < ?d"
        "\<forall>v \<in> set pre. lightnessDiff L w0 < lightnessDiff L v"
        "\<forall>v \<in> set post. lightnessDiff L w0 \<le> lightnessDiff L v"
        by blast
      then have "w # ws = (w # pre) @ w0 # post \<and> d0 = Some (lightnessDiff L w0)
          \<and> lightnessDiff L w0 < m
          \<and> (\<forall>v \<in> set (w # pre). lightnessDiff L w0 < lightnessDiff L v)
          \<and> (\<forall>v \<in> set post. lightnessDiff L w0 \<le> lightnessDiff L v)"
        using True by simp
      then show ?thesis by blast
    qed
  next
    case False
    with Cons.prems have "closestWeight L ws (bw, Some m) = (w0, d0)" by simp
    from Cons.IH [OF this] show ?thesis
    proof
      assume "w0 = bw \<and> d0 = Some m \<and> (\<forall>v \<in> set ws. m \<le> lightnessDiff L v)"
      then show ?thesis using False by simp
    next
      assume "\<exists>pre post. ws = pre @ w0 # post \<and> d0 = Some (lightnessDiff L w0)
          \<and> lightnessDiff L w0 < m
          \<and> (\<forall>v \<in> set pre. lightnessDiff L w0 < lightnessDiff L v)
          \<and> (\<forall>v \<in> set post. lightnessDiff L w0 \<le> lightnessDiff L v)"
      then obtain pre post where p: "ws = pre @ w0 # post" "d0 = Some (lightnessDiff L w0)"
        "lightnessDiff L w0 < m"
        "\<forall>v \<in> set pre. lightnessDiff L w0 < lightnessDiff L v"
        "\<forall>v \<in> set post. lightnessDiff L w0 \<le> lightnessDiff L v"
        by blast
      then have "w # ws = (w # pre) @ w0 # post \<and> d0 = Some (lightnessDiff L w0)
          \<and> lightnessDiff L w0 < m
          \<and> (\<forall>v \<in> set (w # pre). lightnessDiff L w0 < lightnessDiff L v)
          \<and> (\<forall>v \<in> set post. lightnessDiff L w0 \<le> lightnessDiff L v)"
        using False by simp
      then show ?thesis by blast
    qed
  qed
qed

lemma closestWeight_None:
  assumes "ws \<noteq> []"
  shows "\<exists>pre post. ws = pre @ fst (closestWeight L ws (bw, None)) # post
    \<and> (\<forall>w \<in> set pre. lightnessDiff L (fst (closestWeight L ws (bw, None))) < lightnessDiff L w)
    \<and> (\<forall>w \<in> set post. lightnessDiff L (fst (closestWeight L ws (bw, None))) \<le> lightnessDiff L w)"
proof -
  from assms obtain w ws' where ws: "ws = w # ws'" by (cases ws) auto
  obtain w0 d0 where r: "closestWeight L ws' (w, Some (lightnessDiff L w)) = (w0, d0)"
    by (cases "closestWeight L ws' (w, Some (lightnessDiff L w))")
  then have f: "fst (closestWeight L ws (bw, None)) = w0" by (simp add: ws)
  from closestWeight_Some [OF r] show ?thesis unfolding f
  proof
    assume "w0 = w \<and> d0 = Some (lightnessDiff L w) \<and> (\<forall>v \<in> set ws'. lightnessDiff L w \<le> lightnessDiff L v)"
    then have "ws = [] @ w0 # ws' \<and> (\<forall>v \<in> set []. lightnessDiff L w0 < lightnessDiff L v)
      \<and> (\<forall>v \<in> set ws'. lightnessDiff L w0 \<le> lightnessDiff L v)"
      by (simp add: ws)
    then show "\<exists>pre post. ws = pre @ w0 # post
      \<and> (\<forall>w \<in> set pre. lightnessDiff L w0 < lightnessDiff L w)
      \<and> (\<forall>w \<in> set post. lightnessDiff L w0 \<le> lightnessDiff L w)" by blast
  next
    assume "\<exists>pre post. ws' = pre @ w0 # post \<and> d0 = Some (lightnessDiff L w0)
          \<and> lightnessDiff L w0 < lightnessDiff L w
          \<and> (\<forall>v \<in> set pre. lightnessDiff L w0 < lightnessDiff L v)
          \<and> (\<forall>v \<in> set post. lightnessDiff L w0 \<le> lightnessDiff L v)"
    then obtain pre post where p: "ws' = pre @ w0 # post"
        "lightnessDiff L w0 < lightnessDiff L w"
        "\<forall>v \<in> set pre. lightnessDiff L w0 < lightnessDiff L v"
        "\<forall>v \<in> set post. lightnessDiff L w0 \<le> lightnessDiff L v"
      by blast
    then have "ws = (w # pre) @ w0 # post
      \<and> (\<forall>v \<in> set (w # pre). lightnessDiff L w0 < lightnessDiff L v)
      \<and> (\<forall>v \<in> set post. lightnessDiff L w0 \<le> lightnessDiff L v)"
      by (simp add: ws)
    then show "\<exists>pre post. ws = pre @ w0 # post
      \<and> (\<forall>w \<in> set pre. lightnessDiff L w0 < lightnessDiff L w)
      \<and> (\<forall>w \<in> set post. lightnessDiff L w0 \<le> lightnessDiff L w)" by blast
  qed
qed

lemma findBaseWeight_first_min:
  "\<exists>pre post. ALL_WEIGHTS = pre @ findBaseWeight L # post
    \<and> (\<forall>w \<in> set pre. lightnessDiff L (findBaseWeight L) < lightnessDiff L w)
    \<and> (\<forall>w \<in> set post. lightnessDiff L (findBaseWeight L) \<le> lightnessDiff L w)"
  unfolding findBaseWeight_def by (rule closestWeight_None) (simp add: ALL_WEIGHTS_def)


subsection \<open>What the handler adds to the document\<close>

lemma registerColor_fields:
  "paintStyles (registerColor name coll w c doc) =
     paintStyles doc @ [\<lparr>style_name = ''UI Colors/'' @ name @ ''/'' @ weight_label w,
        style_paints = [solidColor c]\<rparr>]"
  "collections (registerColor name coll w c doc) = collections doc"
  "notifications (registerColor name coll w c doc) = notifications doc"
  "closed (registerColor name coll w c doc) = closed doc"
  "variables (registerColor name coll w c doc) =
     variables doc @ [\<lparr>variable_name = name @ ''/'' @ weight_label w,
        variable_collection = coll, variable_type = ''COLOR'',
        variable_values = [(hd (collection_modes (collections doc ! coll)), solidColor c)]\<rparr>]"
  by (simp_all add: registerColor_def createPaintStyle_def createVariable_def Let_def)

lemma foldl_registerColor:
  "paintStyles (foldl (\<lambda>d w. registerColor name coll w (f w) d) doc ws) =
     paintStyles doc @ map (\<lambda>w. \<lparr>style_name = ''UI Colors/'' @ name @ ''/'' @ weight_label w,
        style_paints = [solidColor (f w)]\<rparr>) ws"
  "collections (foldl (\<lambda>d w. registerColor name coll w (f w) d) doc ws) = collections doc"
  "notifications (foldl (\<lambda>d w. registerColor name coll w (f w) d) doc ws) = notifications doc"
  "closed (foldl (\<lambda>d w. registerColor name coll w (f w) d) doc ws) = closed doc"
  "variables (foldl (\<lambda>d w. registerColor name coll w (f w) d) doc ws) =
     variables doc @ map (\<lambda>w. \<lparr>variable_name = name @ ''/'' @ weight_label w,
        variable_collection = coll, variable_type = ''COLOR'',
        variable_values = [(hd (collection_modes (collections doc ! coll)), solidColor (f w))]\<rparr>) ws"
proof (induction ws arbitrary: doc)
  case Nil
  {
    case 1 show ?case by simp
  next
    case 2 show ?case by simp
  next
    case 3 show ?case by simp
  next
    case 4 show ?case by simp
  next
    case 5 show ?case by simp
  }
next
  case (Cons w ws)
  {
    case 1 show ?case by (simp add: Cons.IH(1) registerColor_fields)
  next
    case 2 show ?case by (simp add: Cons.IH(2) registerColor_fields)
  next
    case 3 show ?case by (simp add: Cons.IH(3) registerColor_fields)
  next
    case 4 show ?case by (simp add: Cons.IH(4) registerColor_fields)
  next
    case 5 show ?case by (simp add: Cons.IH(5) registerColor_fields)
  }
qed

lemma generatePalette_fields:
  "paintStyles (generatePalette name coll (H, S, L) doc) =
     paintStyles doc @ map (\<lambda>w. \<lparr>style_name = ''UI Colors/'' @ name @ ''/'' @ weight_label w,
        style_paints = [solidColor (newRgbArray H S (lightnessDelta L (findBaseWeight L))
          (saturationDelta S (findBaseWeight L)) w)]\<rparr>) ALL_WEIGHTS"
  "collections (generatePalette name coll (H, S, L) doc) = collections doc"
  "notifications (generatePalette name coll (H, S, L) doc) = notifications doc"
  "closed (generatePalette name coll (H, S, L) doc) = closed doc"
  "variables (generatePalette name coll (H, S, L) doc) =
     variables doc @ map (\<lambda>w. \<lparr>variable_name = name @ ''/'' @ weight_label w,
        variable_collection = coll, variable_type = ''COLOR'',
        variable_values = [(hd (collection_modes (collections doc ! coll)),
          solidColor (newRgbArray H S (lightnessDelta L (findBaseWeight L))
            (saturationDelta S (findBaseWeight L)) w))]\<rparr>) ALL_WEIGHTS"
  by (simp_all only: generatePalette_def Let_def prod.case foldl_registerColor)

lemma onmessage_invalid:
  assumes "msg_type msg = ''generate-palette''" "hexToRgb (msg_hex msg) = None"
  shows "onmessage msg doc =
    doc\<lparr>collections := collections doc
            @ [\<lparr>collection_name = ''UI Colors'', collection_modes = [0]\<rparr>],
        notifications := notifications doc
            @ [\<lparr>note_message = ''Invalid hex code provided.'', note_error = True\<rparr>]\<rparr>"
  using assms by (simp add: onmessage_def createVariableCollection_def notify_def Let_def)

lemma onmessage_valid:
  assumes "msg_type msg = ''generate-palette''" "hexToRgb (msg_hex msg) = Some c"
    "seedHsl c = (H, S, L)"
  shows "paintStyles (onmessage msg doc) =
     paintStyles doc @ map (\<lambda>w. \<lparr>style_name = ''UI Colors/'' @ msg_name msg @ ''/'' @ weight_label w,
        style_paints = [solidColor (newRgbArray H S (lightnessDelta L (findBaseWeight L))
          (saturationDelta S (findBaseWeight L)) w)]\<rparr>) ALL_WEIGHTS"
    "variables (onmessage msg doc) =
     variables doc @ map (\<lambda>w. \<lparr>variable_name = msg_name msg @ ''/'' @ weight_label w,
        variable_collection = length (collections doc), variable_type = ''COLOR'',
        variable_values = [(0, solidColor (newRgbArray H S (lightnessDelta L (findBaseWeight L))
            (saturationDelta S (findBaseWeight L)) w))]\<rparr>) ALL_WEIGHTS"
    "collections (onmessage msg doc) =
       collections doc @ [\<lparr>collection_name = ''UI Colors'', collection_modes = [0]\<rparr>]"
    "closed (onmessage msg doc)"
  using assms
  by (simp_all add: onmessage_def createVariableCollection_def notify_def closePlugin_def
      Let_def generatePalette_fields)

subsection \<open>The tables and one seed, evaluated\<close>

text \<open>
  Each literal of the tables is the double nearest to the decimal written in the source.
  The seed \<open>#3B82F6\<close> is followed through \<^verbatim>\<open>rgbToHsl\<close> and the search loop, one
  rounded operation at a time.
\<close>

lemma TARGET_LIGHTNESS_values:
  "TARGET_LIGHTNESS W50 = 4368491638549381 / 4503599627370496"
  "TARGET_LIGHTNESS W100 = 2116691824864133 / 2251799813685248"
  "TARGET_LIGHTNESS W200 = 7746191359077253 / 9007199254740992"
  "TARGET_LIGHTNESS W300 = 3422735716801577 / 4503599627370496"
  "TARGET_LIGHTNESS W400 = 5854679515581645 / 9007199254740992"
  "TARGET_LIGHTNESS W500 = 607985949695017 / 1125899906842624"
  "TARGET_LIGHTNESS W600 = 7746191359077253 / 18014398509481984"
  "TARGET_LIGHTNESS W700 = 5764607523034235 / 18014398509481984"
  "TARGET_LIGHTNESS W800 = 7926335344172073 / 36028797018963968"
  "TARGET_LIGHTNESS W900 = 1170935903116329 / 9007199254740992"
  "TARGET_LIGHTNESS W950 = 1080863910568919 / 18014398509481984"
proof -
  show "TARGET_LIGHTNESS W50 = 4368491638549381 / 4503599627370496"
    unfolding TARGET_LIGHTNESS.simps lit_def
    by (rule fl_eqI [where e = "-1" and M = "8736983277098762"]) (simp_all add: pow2_def)
  show "TARGET_LIGHTNESS W100 = 2116691824864133 / 2251799813685248"
    unfolding TARGET_LIGHTNESS.simps lit_def
    by (rule fl_eqI [where e = "-1" and M = "8466767299456532"]) (simp_all add: pow2_def)
  show "TARGET_LIGHTNESS W200 = 7746191359077253 / 9007199254740992"
    unfolding TARGET_LIGHTNESS.simps lit_def
    by (rule fl_eqI [where e = "-1" and M = "7746191359077253"]) (simp_all add: pow2_def)
  show "TARGET_LIGHTNESS W300 = 3422735716801577 / 4503599627370496"
    unfolding TARGET_LIGHTNESS.simps lit_def
    by (rule fl_eqI [where e = "-1" and M = "6845471433603154"]) (simp_all add: pow2_def)
  show "TARGET_LIGHTNESS W400 = 5854679515581645 / 9007199254740992"
    unfolding TARGET_LIGHTNESS.simps lit_def
    by (rule fl_eqI [where e = "-1" and M = "5854679515581645"]) (simp_all add: pow2_def)
  show "TARGET_LIGHTNESS W500 = 607985949695017 / 1125899906842624"
    unfolding TARGET_LIGHTNESS.simps lit_def
    by (rule fl_eqI [where e = "-1" and M = "4863887597560136"]) (simp_all add: pow2_def)
  show "TARGET_LIGHTNESS W600 = 7746191359077253 / 18014398509481984"
    unfolding TARGET_LIGHTNESS.simps lit_def
    by (rule fl_eqI [where e = "-2" and M = "7746191359077253"]) (simp_all add: pow2_def)
  show "TARGET_LIGHTNESS W700 = 5764607523034235 / 18014398509481984"
    unfolding TARGET_LIGHTNESS.simps lit_def
    by (rule fl_eqI [where e = "-2" and M = "5764607523034235"]) (simp_all add: pow2_def)
  show "TARGET_LIGHTNESS W800 = 7926335344172073 / 36028797018963968"
    unfolding TARGET_LIGHTNESS.simps lit_def
    by (rule fl_eqI [where e = "-3" and M = "7926335344172073"]) (simp_all add: pow2_def)
  show "TARGET_LIGHTNESS W900 = 1170935903116329 / 9007199254740992"
    unfolding TARGET_LIGHTNESS.simps lit_def
    by (rule fl_eqI [where e = "-3" and M = "4683743612465316"]) (simp_all add: pow2_def)
  show "TARGET_LIGHTNESS W950 = 1080863910568919 / 18014398509481984"
    unfolding TARGET_LIGHTNESS.simps lit_def
    by (rule fl_eqI [where e = "-5" and M = "8646911284551352"]) (simp_all add: pow2_def)
qed


lemma blue_hsl_steps:
  "js_div 59 255 = 4168037302193871 / 18014398509481984"
  "js_div 130 255 = 286994093901061 / 562949953421312"
  "js_div 246 255 = 8689298104573663 / 9007199254740992"
  "js_add (8689298104573663 / 9007199254740992) (4168037302193871 / 18014398509481984) = 5386658377835299 / 4503599627370496"
  "js_div (5386658377835299 / 4503599627370496) 2 = 5386658377835299 / 9007199254740992"
  "js_sub (8689298104573663 / 9007199254740992) (4168037302193871 / 18014398509481984) = 825659931684591 / 1125899906842624"
  "js_sub 2 (8689298104573663 / 9007199254740992) = 291409387653385 / 281474976710656"
  "js_sub (291409387653385 / 281474976710656) (4168037302193871 / 18014398509481984) = 905135219226423 / 1125899906842624"
  "js_div (825659931684591 / 1125899906842624) (905135219226423 / 1125899906842624) = 8216323222617395 / 9007199254740992"
  "js_sub (4168037302193871 / 18014398509481984) (286994093901061 / 562949953421312) = - (5015773702640081 / 18014398509481984)"
  "js_div (- (5015773702640081 / 18014398509481984)) (825659931684591 / 1125899906842624) = - (6839691412691019 / 18014398509481984)"
  "js_add (- (6839691412691019 / 18014398509481984)) 4 = 8152237828154615 / 2251799813685248"
  "js_div (8152237828154615 / 2251799813685248) 6 = 5434825218769743 / 9007199254740992"
proof -
  show "js_div 59 255 = 4168037302193871 / 18014398509481984"
    unfolding js_div_def
    by (rule fl_eqI [where e = "-3" and M = "8336074604387742"]) (simp_all add: pow2_def)
  show "js_div 130 255 = 286994093901061 / 562949953421312"
    unfolding js_div_def
    by (rule fl_eqI [where e = "-1" and M = "4591905502416976"]) (simp_all add: pow2_def)
  show "js_div 246 255 = 8689298104573663 / 9007199254740992"
    unfolding js_div_def
    by (rule fl_eqI [where e = "-1" and M = "8689298104573663"]) (simp_all add: pow2_def)
  show "js_add (8689298104573663 / 9007199254740992) (4168037302193871 / 18014398509481984) = 5386658377835299 / 4503599627370496"
    unfolding js_add_def
    by (rule fl_eqI [where e = "0" and M = "5386658377835299"]) (simp_all add: pow2_def)
  show "js_div (5386658377835299 / 4503599627370496) 2 = 5386658377835299 / 9007199254740992"
    unfolding js_div_def
    by (rule fl_eqI [where e = "-1" and M = "5386658377835299"]) (simp_all add: pow2_def)
  show "js_sub (8689298104573663 / 9007199254740992) (4168037302193871 / 18014398509481984) = 825659931684591 / 1125899906842624"
    unfolding js_sub_def
    by (rule fl_eqI [where e = "-1" and M = "6605279453476728"]) (simp_all add: pow2_def)
  show "js_sub 2 (8689298104573663 / 9007199254740992) = 291409387653385 / 281474976710656"
    unfolding js_sub_def
    by (rule fl_eqI [where e = "0" and M = "4662550202454160"]) (simp_all add: pow2_def)
  show "js_sub (291409387653385 / 281474976710656) (4168037302193871 / 18014398509481984) = 905135219226423 / 1125899906842624"
    unfolding js_sub_def
    by (rule fl_eqI [where e = "-1" and M = "7241081753811384"]) (simp_all add: pow2_def)
  show "js_div (825659931684591 / 1125899906842624) (905135219226423 / 1125899906842624) = 8216323222617395 / 9007199254740992"
    unfolding js_div_def
    by (rule fl_eqI [where e = "-1" and M = "8216323222617395"]) (simp_all add: pow2_def)
  show "js_sub (4168037302193871 / 18014398509481984) (286994093901061 / 562949953421312) = - (5015773702640081 / 18014398509481984)"
    unfolding js_sub_def
    by (rule fl_eqI [where e = "-2" and M = "-5015773702640081"]) (simp_all add: pow2_def)
  show "js_div (- (5015773702640081 / 18014398509481984)) (825659931684591 / 1125899906842624) = - (6839691412691019 / 18014398509481984)"
    unfolding js_div_def
    by (rule fl_eqI [where e = "-2" and M = "-6839691412691019"]) (simp_all add: pow2_def)
  show "js_add (- (6839691412691019 / 18014398509481984)) 4 = 8152237828154615 / 2251799813685248"
    unfolding js_add_def
    by (rule fl_eqI [where e = "1" and M = "8152237828154615"]) (simp_all add: pow2_def)
  show "js_div (8152237828154615 / 2251799813685248) 6 = 5434825218769743 / 9007199254740992"
    unfolding js_div_def
    by (rule fl_eqI [where e = "-1" and M = "5434825218769743"]) (simp_all add: pow2_def)
qed

lemma blue_hsl:
  "rgbToHsl 59 130 246 =
     (5434825218769743 / 9007199254740992,
      8216323222617395 / 9007199254740992,
      5386658377835299 / 9007199254740992)"
  by (simp add: rgbToHsl_def Let_def blue_hsl_steps)

lemma blue_diff_steps:
  "js_sub (5386658377835299 / 9007199254740992) (4368491638549381 / 4503599627370496) = - (3350324899263463 / 9007199254740992)"
  "js_sub (5386658377835299 / 9007199254740992) (2116691824864133 / 2251799813685248) = - (3080108921621233 / 9007199254740992)"
  "js_sub (5386658377835299 / 9007199254740992) (7746191359077253 / 9007199254740992) = - (1179766490620977 / 4503599627370496)"
  "js_sub (5386658377835299 / 9007199254740992) (3422735716801577 / 4503599627370496) = - (1458813055767855 / 9007199254740992)"
  "js_sub (5386658377835299 / 9007199254740992) (5854679515581645 / 9007199254740992) = - (234010568873173 / 4503599627370496)"
  "js_sub (5386658377835299 / 9007199254740992) (607985949695017 / 1125899906842624) = 522770780275163 / 9007199254740992"
  "js_sub (5386658377835299 / 9007199254740992) (7746191359077253 / 18014398509481984) = 3027125396593345 / 18014398509481984"
  "js_sub (5386658377835299 / 9007199254740992) (5764607523034235 / 18014398509481984) = 5008709232636363 / 18014398509481984"
  "js_sub (5386658377835299 / 9007199254740992) (7926335344172073 / 36028797018963968) = 3405074541792281 / 9007199254740992"
  "js_sub (5386658377835299 / 9007199254740992) (1170935903116329 / 9007199254740992) = 2107861237359485 / 4503599627370496"
  "js_sub (5386658377835299 / 9007199254740992) (1080863910568919 / 18014398509481984) = 605778302818855 / 1125899906842624"
proof -
  show "js_sub (5386658377835299 / 9007199254740992) (4368491638549381 / 4503599627370496) = - (3350324899263463 / 9007199254740992)"
    unfolding js_sub_def
    by (rule fl_eqI [where e = "-2" and M = "-6700649798526926"]) (simp_all add: pow2_def)
  show "js_sub (5386658377835299 / 9007199254740992) (2116691824864133 / 2251799813685248) = - (3080108921621233 / 9007199254740992)"
    unfolding js_sub_def
    by (rule fl_eqI [where e = "-2" and M = "-6160217843242466"]) (simp_all add: pow2_def)
  show "js_sub (5386658377835299 / 9007199254740992) (7746191359077253 / 9007199254740992) = - (1179766490620977 / 4503599627370496)"
    unfolding js_sub_def
    by (rule fl_eqI [where e = "-2" and M = "-4719065962483908"]) (simp_all add: pow2_def)
  show "js_sub (5386658377835299 / 9007199254740992) (3422735716801577 / 4503599627370496) = - (1458813055767855 / 9007199254740992)"
    unfolding js_sub_def
    by (rule fl_eqI [where e = "-3" and M = "-5835252223071420"]) (simp_all add: pow2_def)
  show "js_sub (5386658377835299 / 9007199254740992) (5854679515581645 / 9007199254740992) = - (234010568873173 / 4503599627370496)"
    unfolding js_sub_def
    by (rule fl_eqI [where e = "-5" and M = "-7488338203941536"]) (simp_all add: pow2_def)
  show "js_sub (5386658377835299 / 9007199254740992) (607985949695017 / 1125899906842624) = 522770780275163 / 9007199254740992"
    unfolding js_sub_def
    by (rule fl_eqI [where e = "-5" and M = "8364332484402608"]) (simp_all add: pow2_def)
  show "js_sub (5386658377835299 / 9007199254740992) (7746191359077253 / 18014398509481984) = 3027125396593345 / 18014398509481984"
    unfolding js_sub_def
    by (rule fl_eqI [where e = "-3" and M = "6054250793186690"]) (simp_all add: pow2_def)
  show "js_sub (5386658377835299 / 9007199254740992) (5764607523034235 / 18014398509481984) = 5008709232636363 / 18014398509481984"
    unfolding js_sub_def
    by (rule fl_eqI [where e = "-2" and M = "5008709232636363"]) (simp_all add: pow2_def)
  show "js_sub (5386658377835299 / 9007199254740992) (7926335344172073 / 36028797018963968) = 3405074541792281 / 9007199254740992"
    unfolding js_sub_def
    by (rule fl_eqI [where e = "-2" and M = "6810149083584562"]) (simp_all add: pow2_def)
  show "js_sub (5386658377835299 / 9007199254740992) (1170935903116329 / 9007199254740992) = 2107861237359485 / 4503599627370496"
    unfolding js_sub_def
    by (rule fl_eqI [where e = "-2" and M = "8431444949437940"]) (simp_all add: pow2_def)
  show "js_sub (5386658377835299 / 9007199254740992) (1080863910568919 / 18014398509481984) = 605778302818855 / 1125899906842624"
    unfolding js_sub_def
    by (rule fl_eqI [where e = "-1" and M = "4846226422550840"]) (simp_all add: pow2_def)
qed

lemma blue_base_weight: "findBaseWeight (5386658377835299 / 9007199254740992) = W400"
  by (simp add: findBaseWeight_def ALL_WEIGHTS_def lightnessDiff_def TARGET_LIGHTNESS_values
      blue_diff_steps del: TARGET_LIGHTNESS.simps)






section \<open>Theorems about the palette generator\<close>

lemma TARGET_LIGHTNESS_decreasing:
  "sorted_wrt (\<lambda>a b. TARGET_LIGHTNESS b < TARGET_LIGHTNESS a) ALL_WEIGHTS"
  by (simp add: ALL_WEIGHTS_def TARGET_LIGHTNESS_values del: TARGET_LIGHTNESS.simps)

lemma clampedL_mono:
  assumes "TARGET_LIGHTNESS b \<le> TARGET_LIGHTNESS a"
  shows "clampedL d b \<le> clampedL d a"
proof -
  have "newLightness d b \<le> newLightness d a"
    unfolding newLightness_def js_add_def using assms by (intro fl_mono) simp
  then show ?thesis unfolding clampedL_def by (intro max.mono min.mono) simp_all
qed

lemma clamped_range:
  "0 \<le> clampedL d w" "clampedL d w \<le> 1" "0 \<le> clampedS S sd w" "clampedS S sd w \<le> 1"
  by (simp_all add: clampedL_def clampedS_def)

text \<open>
  Claim C7. For every validly parsed seed, the clamped lightness values that the loop
  passes to \<open>hslToRgb\<close>, taken over the eleven weights in table order, never increase.
  The target lightness curve is strictly decreasing in table order, the same
  \<open>lightnessDelta\<close> is added to each of its values, and the rounded addition and the clamp
  both preserve the order.
\<close>

theorem monotonic_lightness:
  assumes "hexToRgb hex = Some c" and "seedHsl c = (H, S, L)"
  shows "sorted_wrt (\<lambda>a b. TARGET_LIGHTNESS b < TARGET_LIGHTNESS a) ALL_WEIGHTS
    \<and> sorted_wrt (\<lambda>x y. y \<le> x)
          (map (clampedL (lightnessDelta L (findBaseWeight L))) ALL_WEIGHTS)
    \<and> (\<forall>w. newRgbArray H S (lightnessDelta L (findBaseWeight L))
            (saturationDelta S (findBaseWeight L)) w
          = hslToRgb H (clampedS S (saturationDelta S (findBaseWeight L)) w)
              (clampedL (lightnessDelta L (findBaseWeight L)) w))"
proof -
  let ?d = "lightnessDelta L (findBaseWeight L)"
  have "sorted_wrt (\<lambda>a b. clampedL ?d b \<le> clampedL ?d a) ALL_WEIGHTS"
    using TARGET_LIGHTNESS_decreasing
    by (rule sorted_wrt_mono_rel [rotated]) (simp add: clampedL_mono)
  then have "sorted_wrt (\<lambda>x y. y \<le> x) (map (clampedL ?d) ALL_WEIGHTS)"
    by (simp add: sorted_wrt_map)
  then show ?thesis
    using TARGET_LIGHTNESS_decreasing by (simp add: newRgbArray_def)
qed

theorem monotonic_lightness_witness:
  "hexToRgb ''#3B82F6'' = Some \<lparr>rgb_r = 59, rgb_g = 130, rgb_b = 246\<rparr>
   \<and> sorted_wrt (\<lambda>x y. y \<le> x)
        (map (clampedL (lightnessDelta (5386658377835299 / 9007199254740992) W400)) ALL_WEIGHTS)"
proof -
  have h: "hexToRgb ''#3B82F6'' = Some \<lparr>rgb_r = 59, rgb_g = 130, rgb_b = 246\<rparr>"
    by (simp add: hexToRgb_def expand_shorthand_def is_hex_digit_def lower_char_def
        parseInt16_def digit_value_def)
  have s: "seedHsl \<lparr>rgb_r = 59, rgb_g = 130, rgb_b = 246\<rparr> =
    (5434825218769743 / 9007199254740992, 8216323222617395 / 9007199254740992,
     5386658377835299 / 9007199254740992)"
    by (simp add: seedHsl_def blue_hsl)
  from monotonic_lightness [OF h s] h show ?thesis
    by (simp add: blue_base_weight)
qed

lemma hexToRgb_blue:
  "hexToRgb ''#3B82F6'' = Some \<lparr>rgb_r = 59, rgb_g = 130, rgb_b = 246\<rparr>"
  by (simp add: hexToRgb_def expand_shorthand_def is_hex_digit_def lower_char_def
      parseInt16_def digit_value_def)

lemma seedHsl_blue:
  "seedHsl \<lparr>rgb_r = 59, rgb_g = 130, rgb_b = 246\<rparr> =
    (5434825218769743 / 9007199254740992, 8216323222617395 / 9007199254740992,
     5386658377835299 / 9007199254740992)"
  by (simp add: seedHsl_def blue_hsl)

text \<open>
  Claim C4. For every lightness \<open>L\<close> (so for that of every parsed seed) the matched base
  weight splits the table \<open>ALL_WEIGHTS\<close> in two: every weight before it has a strictly
  larger difference \<open>\<bar>L - TARGET_LIGHTNESS w\<bar>\<close> (as the source computes it) and every weight
  after it a difference at least as large. It is thus the first weight of the table with
  the least difference, and a tie goes to the earlier weight. The seed \<open>#3B82F6\<close> has
  lightness about 0.598 and matches weight 400, whose difference is below that of
  weight 500.
\<close>

theorem nearest_weight_match:
  "(\<exists>pre post. ALL_WEIGHTS = pre @ findBaseWeight L # post
      \<and> (\<forall>w \<in> set pre. lightnessDiff L (findBaseWeight L) < lightnessDiff L w)
      \<and> (\<forall>w \<in> set post. lightnessDiff L (findBaseWeight L) \<le> lightnessDiff L w))
   \<and> (\<exists>H S L'. hexToRgb ''#3B82F6'' = Some \<lparr>rgb_r = 59, rgb_g = 130, rgb_b = 246\<rparr>
        \<and> seedHsl \<lparr>rgb_r = 59, rgb_g = 130, rgb_b = 246\<rparr> = (H, S, L')
        \<and> \<bar>L' - 598 / 1000\<bar> < 1 / 1000
        \<and> findBaseWeight L' = W400
        \<and> lightnessDiff L' W400 < lightnessDiff L' W500)"
proof -
  let ?L = "5386658377835299 / 9007199254740992 :: real"
  have "\<bar>?L - 598 / 1000\<bar> < 1 / 1000" by simp
  moreover have "lightnessDiff ?L W400 < lightnessDiff ?L W500"
    by (simp add: lightnessDiff_def TARGET_LIGHTNESS_values blue_diff_steps
        del: TARGET_LIGHTNESS.simps)
  ultimately have "\<exists>H S L'. hexToRgb ''#3B82F6'' = Some \<lparr>rgb_r = 59, rgb_g = 130, rgb_b = 246\<rparr>
        \<and> seedHsl \<lparr>rgb_r = 59, rgb_g = 130, rgb_b = 246\<rparr> = (H, S, L')
        \<and> \<bar>L' - 598 / 1000\<bar> < 1 / 1000
        \<and> findBaseWeight L' = W400
        \<and> lightnessDiff L' W400 < lightnessDiff L' W500"
    using hexToRgb_blue seedHsl_blue blue_base_weight by blast
  then show ?thesis using findBaseWeight_first_min [of L] by blast
qed

theorem nearest_weight_match_witness:
  "ALL_WEIGHTS = [W50, W100, W200, W300]
      @ findBaseWeight (5386658377835299 / 9007199254740992)
      # [W500, W600, W700, W800, W900, W950]
   \<and> lightnessDiff (5386658377835299 / 9007199254740992)
        (findBaseWeight (5386658377835299 / 9007199254740992))
      < lightnessDiff (5386658377835299 / 9007199254740992) W300
   \<and> lightnessDiff (5386658377835299 / 9007199254740992)
        (findBaseWeight (5386658377835299 / 9007199254740992))
      \<le> lightnessDiff (5386658377835299 / 9007199254740992) W500"
proof -
  let ?L = "5386658377835299 / 9007199254740992 :: real"
  from nearest_weight_match [of ?L]
  obtain pre post where p: "ALL_WEIGHTS = pre @ findBaseWeight ?L # post"
    "\<forall>w \<in> set pre. lightnessDiff ?L (findBaseWeight ?L) < lightnessDiff ?L w"
    "\<forall>w \<in> set post. lightnessDiff ?L (findBaseWeight ?L) \<le> lightnessDiff ?L w"
    by blast
  have "[W50, W100, W200, W300] @ W400 # [W500, W600, W700, W800, W900, W950]
      = pre @ W400 # post"
    using p(1) by (simp add: ALL_WEIGHTS_def blue_base_weight)
  then have "[W50, W100, W200, W300] = pre \<and> [W500, W600, W700, W800, W900, W950] = post"
    by (subst (asm) append_Cons_eq_iff) simp_all
  then have "W300 \<in> set pre" "W500 \<in> set post" by auto
  with p(2,3) show ?thesis
    by (simp add: ALL_WEIGHTS_def blue_base_weight)
qed

lemma rgbToHsl_gray: "rgbToHsl v v v = (0, 0, js_div (js_add (js_div v 255) (js_div v 255)) 2)"
  by (simp add: rgbToHsl_def Let_def)

lemma js_mul_0_right [simp]: "js_mul x 0 = 0"
  by (simp add: js_mul_def)

lemma saturationDelta_0 [simp]: "saturationDelta 0 w = 0"
  by (simp add: saturationDelta_def js_sub_def)

lemma newSaturation_0 [simp]: "newSaturation 0 0 w = 0"
  by (simp add: newSaturation_def js_add_def)

lemma clampedS_0 [simp]: "clampedS 0 0 w = 0"
  by (simp add: clampedS_def)

lemma hslToRgb_gray:
  "hslToRgb h 0 l = (Math_round (js_mul l 255), Math_round (js_mul l 255), Math_round (js_mul l 255))"
  by (simp add: hslToRgb_def)

lemma js_mul_commute: "js_mul x y = js_mul y x"
  by (simp add: js_mul_def mult.commute)

text \<open>
  Claim C9. A parsed seed with three equal channels has hue 0 and saturation 0. Its
  saturation delta is 0, the saturation computed for every weight is 0 before and after
  the clamp, and \<open>hslToRgb\<close> takes its \<open>s = 0\<close> branch: each of the eleven colors has
  \<open>r = g = b = Math.round(255 * clampedL)\<close>, and these grays are what the handler registers
  as paint styles.
\<close>

theorem achromatic_ramp:
  assumes "hexToRgb (msg_hex msg) = Some c" and "rgb_r c = rgb_g c" and "rgb_g c = rgb_b c"
    and "seedHsl c = (H, S, L)" and "msg_type msg = ''generate-palette''"
  shows "H = 0 \<and> S = 0 \<and> saturationDelta S (findBaseWeight L) = 0
    \<and> (\<forall>w. newSaturation S (saturationDelta S (findBaseWeight L)) w = 0
          \<and> clampedS S (saturationDelta S (findBaseWeight L)) w = 0
          \<and> newRgbArray H S (lightnessDelta L (findBaseWeight L))
                (saturationDelta S (findBaseWeight L)) w
              = (Math_round (js_mul 255 (clampedL (lightnessDelta L (findBaseWeight L)) w)),
                 Math_round (js_mul 255 (clampedL (lightnessDelta L (findBaseWeight L)) w)),
                 Math_round (js_mul 255 (clampedL (lightnessDelta L (findBaseWeight L)) w))))
    \<and> map style_paints (drop (length (paintStyles doc)) (paintStyles (onmessage msg doc)))
        = map (\<lambda>w. [solidColor
              (Math_round (js_mul 255 (clampedL (lightnessDelta L (findBaseWeight L)) w)),
               Math_round (js_mul 255 (clampedL (lightnessDelta L (findBaseWeight L)) w)),
               Math_round (js_mul 255 (clampedL (lightnessDelta L (findBaseWeight L)) w)))])
            ALL_WEIGHTS"
proof -
  have "seedHsl c = rgbToHsl (of_int (rgb_g c)) (of_int (rgb_g c)) (of_int (rgb_g c))"
    using assms(2,3) by (simp add: seedHsl_def)
  then have hs: "H = 0" "S = 0"
    using assms(4) by (simp_all add: rgbToHsl_gray)
  have n: "newRgbArray H S (lightnessDelta L (findBaseWeight L))
        (saturationDelta S (findBaseWeight L)) w
      = (Math_round (js_mul 255 (clampedL (lightnessDelta L (findBaseWeight L)) w)),
         Math_round (js_mul 255 (clampedL (lightnessDelta L (findBaseWeight L)) w)),
         Math_round (js_mul 255 (clampedL (lightnessDelta L (findBaseWeight L)) w)))" for w
    by (simp add: hs newRgbArray_def hslToRgb_gray js_mul_commute [of 255])
  have "paintStyles (onmessage msg doc) =
     paintStyles doc @ map (\<lambda>w. \<lparr>style_name = ''UI Colors/'' @ msg_name msg @ ''/'' @ weight_label w,
        style_paints = [solidColor (newRgbArray H S (lightnessDelta L (findBaseWeight L))
          (saturationDelta S (findBaseWeight L)) w)]\<rparr>) ALL_WEIGHTS"
    using assms(5,1,4) by (rule onmessage_valid(1))
  then have "map style_paints (drop (length (paintStyles doc)) (paintStyles (onmessage msg doc)))
      = map (\<lambda>w. [solidColor (newRgbArray H S (lightnessDelta L (findBaseWeight L))
          (saturationDelta S (findBaseWeight L)) w)]) ALL_WEIGHTS"
    by (simp add: comp_def)
  then show ?thesis
    using hs n by simp
qed

theorem achromatic_ramp_witness:
  "hexToRgb ''#808080'' = Some \<lparr>rgb_r = 128, rgb_g = 128, rgb_b = 128\<rparr>
   \<and> fst (seedHsl \<lparr>rgb_r = 128, rgb_g = 128, rgb_b = 128\<rparr>) = 0
   \<and> fst (snd (seedHsl \<lparr>rgb_r = 128, rgb_g = 128, rgb_b = 128\<rparr>)) = 0
   \<and> length (paintStyles (onmessage
        \<lparr>msg_type = ''generate-palette'', msg_name = ''gray'', msg_hex = ''#808080''\<rparr>
        \<lparr>collections = [], paintStyles = [], variables = [], notifications = [],
          closed = False\<rparr>)) = 11"
proof -
  let ?c = "\<lparr>rgb_r = 128, rgb_g = 128, rgb_b = 128\<rparr>"
  let ?msg = "\<lparr>msg_type = ''generate-palette'', msg_name = ''gray'', msg_hex = ''#808080''\<rparr>"
  let ?doc = "\<lparr>collections = [], paintStyles = [], variables = [], notifications = [],
          closed = False\<rparr>"
  have h: "hexToRgb (msg_hex ?msg) = Some ?c"
    by (simp add: hexToRgb_def expand_shorthand_def is_hex_digit_def lower_char_def
        parseInt16_def digit_value_def)
  obtain H S L where s: "seedHsl ?c = (H, S, L)" by (cases "seedHsl ?c")
  have "length (map style_paints (drop (length (paintStyles ?doc))
      (paintStyles (onmessage ?msg ?doc)))) = 11"
    using achromatic_ramp [OF h _ _ s, of ?doc] by (simp add: ALL_WEIGHTS_def)
  moreover have "H = 0" "S = 0"
    using achromatic_ramp [OF h _ _ s, of ?doc] by simp_all
  ultimately show ?thesis using h s by simp
qed

text \<open>
  Claim C3. For a parsed seed with hue, saturation and lightness \<open>(H, S, L)\<close> and matched
  weight \<open>w0\<close>, the handler registers, for the eleven weights in table order, the paint
  styles and variables whose color is
  \<open>hslToRgb(H, clamp01(TARGET_SATURATION[w] * S + (S - TARGET_SATURATION[w0] * S)),
  clamp01(TARGET_LIGHTNESS[w] + (L - TARGET_LIGHTNESS[w0])))\<close>, each channel divided by 255,
  where \<open>clamp01 x = max 0 (min 1 x)\<close> lies in [0, 1] and every operation is the rounded
  one. The hue passed to \<open>hslToRgb\<close> is \<open>H\<close> for every weight.
\<close>

theorem ramp_synthesis_formula:
  assumes "msg_type msg = ''generate-palette''" and "hexToRgb (msg_hex msg) = Some c"
    and "seedHsl c = (H, S, L)" and "w0 = findBaseWeight L"
  shows "paintStyles (onmessage msg doc) =
      paintStyles doc @ map (\<lambda>w.
        \<lparr>style_name = ''UI Colors/'' @ msg_name msg @ ''/'' @ weight_label w,
         style_paints = [solidColor (hslToRgb H
           (max 0 (min 1 (js_add (js_mul (TARGET_SATURATION w) S)
              (js_sub S (js_mul (TARGET_SATURATION w0) S)))))
           (max 0 (min 1 (js_add (TARGET_LIGHTNESS w)
              (js_sub L (TARGET_LIGHTNESS w0))))))]\<rparr>) ALL_WEIGHTS
    \<and> variables (onmessage msg doc) =
      variables doc @ map (\<lambda>w.
        \<lparr>variable_name = msg_name msg @ ''/'' @ weight_label w,
         variable_collection = length (collections doc), variable_type = ''COLOR'',
         variable_values = [(0, solidColor (hslToRgb H
           (max 0 (min 1 (js_add (js_mul (TARGET_SATURATION w) S)
              (js_sub S (js_mul (TARGET_SATURATION w0) S)))))
           (max 0 (min 1 (js_add (TARGET_LIGHTNESS w)
              (js_sub L (TARGET_LIGHTNESS w0)))))))]\<rparr>) ALL_WEIGHTS
    \<and> (\<forall>w. 0 \<le> max 0 (min 1 (js_add (js_mul (TARGET_SATURATION w) S)
              (js_sub S (js_mul (TARGET_SATURATION w0) S))))
          \<and> max 0 (min 1 (js_add (js_mul (TARGET_SATURATION w) S)
              (js_sub S (js_mul (TARGET_SATURATION w0) S)))) \<le> 1
          \<and> 0 \<le> max 0 (min 1 (js_add (TARGET_LIGHTNESS w) (js_sub L (TARGET_LIGHTNESS w0))))
          \<and> max 0 (min 1 (js_add (TARGET_LIGHTNESS w) (js_sub L (TARGET_LIGHTNESS w0)))) \<le> 1)"
proof -
  have n: "newRgbArray H S (lightnessDelta L (findBaseWeight L))
        (saturationDelta S (findBaseWeight L)) w
      = hslToRgb H
           (max 0 (min 1 (js_add (js_mul (TARGET_SATURATION w) S)
              (js_sub S (js_mul (TARGET_SATURATION w0) S)))))
           (max 0 (min 1 (js_add (TARGET_LIGHTNESS w)
              (js_sub L (TARGET_LIGHTNESS w0)))))" for w
    by (simp only: newRgbArray_def Let_def clampedS_def clampedL_def newSaturation_def
        newLightness_def saturationDelta_def lightnessDelta_def assms(4))
  show ?thesis
    using onmessage_valid(1,2) [OF assms(1,2,3), of doc] by (simp add: n)
qed

theorem ramp_synthesis_formula_witness:
  "hexToRgb ''#3B82F6'' = Some \<lparr>rgb_r = 59, rgb_g = 130, rgb_b = 246\<rparr>
   \<and> findBaseWeight (5386658377835299 / 9007199254740992) = W400
   \<and> map style_name (paintStyles (onmessage
        \<lparr>msg_type = ''generate-palette'', msg_name = ''blue'', msg_hex = ''#3B82F6''\<rparr>
        \<lparr>collections = [], paintStyles = [], variables = [], notifications = [],
          closed = False\<rparr>))
      = [''UI Colors/blue/50'', ''UI Colors/blue/100'', ''UI Colors/blue/200'',
         ''UI Colors/blue/300'', ''UI Colors/blue/400'', ''UI Colors/blue/500'',
         ''UI Colors/blue/600'', ''UI Colors/blue/700'', ''UI Colors/blue/800'',
         ''UI Colors/blue/900'', ''UI Colors/blue/950'']"
proof -
  let ?msg = "\<lparr>msg_type = ''generate-palette'', msg_name = ''blue'', msg_hex = ''#3B82F6''\<rparr>"
  have t: "msg_type ?msg = ''generate-palette''" by simp
  have h: "hexToRgb (msg_hex ?msg) = Some \<lparr>rgb_r = 59, rgb_g = 130, rgb_b = 246\<rparr>"
    using hexToRgb_blue by simp
  have w: "W400 = findBaseWeight (5386658377835299 / 9007199254740992)"
    by (simp add: blue_base_weight)
  from ramp_synthesis_formula [OF t h seedHsl_blue w] hexToRgb_blue w
  show ?thesis by (simp add: ALL_WEIGHTS_def comp_def)
qed

text \<open>
  Claim C2. The seed \<open>not-a-color\<close> fails hex parsing. The handler reports the invalid
  hex code and returns without closing the plugin; it has created no paint style and no
  variable, but the variable collection \<open>UI Colors\<close>, created before the seed is parsed,
  is in the document.
\<close>

theorem invalid_hex_creates_collection:
  "hexToRgb ''not-a-color'' = None
   \<and> onmessage \<lparr>msg_type = ''generate-palette'', msg_name = ''brand'',
        msg_hex = ''not-a-color''\<rparr> emptyDocument =
      \<lparr>collections = [\<lparr>collection_name = ''UI Colors'', collection_modes = [0]\<rparr>],
       paintStyles = [], variables = [],
       notifications = [\<lparr>note_message = ''Invalid hex code provided.'', note_error = True\<rparr>],
       closed = False\<rparr>"
proof -
  have n: "hexToRgb ''not-a-color'' = None"
    by (simp add: hexToRgb_def expand_shorthand_def)
  then show ?thesis
    by (simp add: onmessage_invalid emptyDocument_def)
qed




















subsection \<open>Parsed seeds and the target lightness table\<close>

lemma max_fl: "max (fl x) (fl y) = fl (max x y)"
proof (cases "x \<le> y")
  case True
  then show ?thesis using fl_mono [of x y] by (simp add: max_absorb2)
next
  case False
  then show ?thesis using fl_mono [of y x] by (simp add: max_absorb1)
qed

lemma min_fl: "min (fl x) (fl y) = fl (min x y)"
proof (cases "x \<le> y")
  case True
  then show ?thesis using fl_mono [of x y] by (simp add: min_absorb1)
next
  case False
  then show ?thesis using fl_mono [of y x] by (simp add: min_absorb2)
qed

lemma max_channel: "max (real_of_int a / 255) (of_int b / 255) = of_int (max a b) / 255"
  by (simp add: max_def)

lemma min_channel: "min (real_of_int a / 255) (of_int b / 255) = of_int (min a b) / 255"
  by (simp add: min_def)

lemma seed_lightness:
  "snd (snd (seedHsl c)) =
     fl (fl (fl (of_int (max (rgb_r c) (max (rgb_g c) (rgb_b c))) / 255)
           + fl (of_int (min (rgb_r c) (min (rgb_g c) (rgb_b c))) / 255)) / 2)"
proof -
  have mx: "max (fl (of_int (rgb_r c) / 255)) (max (fl (of_int (rgb_g c) / 255))
        (fl (of_int (rgb_b c) / 255)))
      = fl (of_int (max (rgb_r c) (max (rgb_g c) (rgb_b c))) / 255)"
    by (simp only: max_fl max_channel)
  have mn: "min (fl (of_int (rgb_r c) / 255)) (min (fl (of_int (rgb_g c) / 255))
        (fl (of_int (rgb_b c) / 255)))
      = fl (of_int (min (rgb_r c) (min (rgb_g c) (rgb_b c))) / 255)"
    by (simp only: min_fl min_channel)
  have "snd (snd (seedHsl c)) =
      js_div (js_add (max (js_div (of_int (rgb_r c)) 255) (max (js_div (of_int (rgb_g c)) 255)
          (js_div (of_int (rgb_b c)) 255)))
        (min (js_div (of_int (rgb_r c)) 255) (min (js_div (of_int (rgb_g c)) 255)
          (js_div (of_int (rgb_b c)) 255)))) 2"
    by (simp add: seedHsl_def rgbToHsl_def Let_def)
  then show ?thesis
    unfolding js_div_def js_add_def mx mn .
qed

lemma lightness_near_grid:
  assumes "0 \<le> a" "a \<le> 255" "0 \<le> b" "b \<le> 255"
  shows "\<bar>fl (fl (fl (of_int a / 255) + fl (of_int b / 255)) / 2) - of_int (a + b) / 510\<bar>
    \<le> 5 / 9007199254740992"
proof -
  define x1 where "x1 = fl (of_int a / 255)"
  define x2 where "x2 = fl (of_int b / 255)"
  define s where "s = fl (x1 + x2)"
  have a: "\<bar>real_of_int a / 255\<bar> \<le> 1" "\<bar>real_of_int b / 255\<bar> \<le> 1" using assms by simp_all
  have e1: "\<bar>x1 - of_int a / 255\<bar> \<le> 1 / 9007199254740992"
    unfolding x1_def using fl_err_le [of "of_int a / 255" 0] a by (simp add: pow2_def)
  have e2: "\<bar>x2 - of_int b / 255\<bar> \<le> 1 / 9007199254740992"
    unfolding x2_def using fl_err_le [of "of_int b / 255" 0] a by (simp add: pow2_def)
  have "\<bar>x1 + x2\<bar> \<le> 4" using e1 e2 a by linarith
  then have e3: "\<bar>s - (x1 + x2)\<bar> \<le> 4 / 9007199254740992"
    unfolding s_def using fl_err_le [of "x1 + x2" 2] by (simp add: pow2_def)
  have "\<bar>s / 2\<bar> \<le> 2" using e1 e2 e3 a by linarith
  then have e4: "\<bar>fl (s / 2) - s / 2\<bar> \<le> 2 / 9007199254740992"
    using fl_err_le [of "s / 2" 1] by (simp add: pow2_def)
  define ra rb where "ra = real_of_int a / 255" and "rb = real_of_int b / 255"
  have g: "real_of_int (a + b) / 510 = (ra + rb) / 2" by (simp add: ra_def rb_def)
  have b1: "x1 - ra \<le> 1 / 9007199254740992" "ra - x1 \<le> 1 / 9007199254740992"
    using e1 unfolding ra_def [symmetric] by (simp_all only: abs_le_iff) linarith+
  have b2: "x2 - rb \<le> 1 / 9007199254740992" "rb - x2 \<le> 1 / 9007199254740992"
    using e2 unfolding rb_def [symmetric] by (simp_all only: abs_le_iff) linarith+
  have b3: "s - (x1 + x2) \<le> 4 / 9007199254740992" "(x1 + x2) - s \<le> 4 / 9007199254740992"
    using e3 by (simp_all only: abs_le_iff) linarith+
  have b4: "fl (s / 2) - s / 2 \<le> 2 / 9007199254740992"
    "s / 2 - fl (s / 2) \<le> 2 / 9007199254740992"
    using e4 by (simp_all only: abs_le_iff) linarith+
  have "fl (s / 2) - (ra + rb) / 2 \<le> 5 / 9007199254740992"
    "(ra + rb) / 2 - fl (s / 2) \<le> 5 / 9007199254740992"
    using b1 b2 b3 b4 by argo+
  then have "\<bar>fl (s / 2) - (ra + rb) / 2\<bar> \<le> 5 / 9007199254740992"
    by (simp only: abs_le_iff) argo
  then show ?thesis
    unfolding x1_def [symmetric] x2_def [symmetric] s_def [symmetric] g .
qed

lemma grid_far_from_targets:
  fixes k :: int
  shows "1 / 5100 \<le> \<bar>of_int k / 510 - TARGET_LIGHTNESS w\<bar> + 1 / 9007199254740992"
proof -
  have lit: "\<bar>lit (of_int n / 100) - of_int n / 100\<bar> \<le> 1 / 9007199254740992"
    if "0 \<le> n" "n \<le> 100" for n :: int
    unfolding lit_def using fl_err_le [of "of_int n / 100" 0] that by (simp add: pow2_def)
  have far: "1 / 5100 \<le> \<bar>real_of_int k / 510 - of_int n / 100\<bar>"
    if "\<bar>100 * k - 510 * n\<bar> \<ge> 10" for n :: int
  proof -
    define z where "z = real_of_int (100 * k - 510 * n)"
    have e: "real_of_int k / 510 - of_int n / 100 = z / 51000"
      by (simp add: z_def)
    from that have "real_of_int 10 \<le> real_of_int \<bar>100 * k - 510 * n\<bar>"
      by (simp only: of_int_le_iff)
    then have "10 \<le> \<bar>z\<bar>" by (simp add: z_def)
    moreover have "\<bar>z / 51000\<bar> = \<bar>z\<bar> / 51000" by simp
    ultimately show ?thesis unfolding e by argo
  qed
  obtain n :: int where n: "TARGET_LIGHTNESS w = lit (of_int n / 100)" "0 \<le> n" "n \<le> 100"
    "\<bar>100 * k - 510 * n\<bar> \<ge> 10"
  proof (cases w)
    case W50 show ?thesis by (rule that [of 97]) (simp_all add: W50, presburger)
  next
    case W100 show ?thesis by (rule that [of 94]) (simp_all add: W100, presburger)
  next
    case W200 show ?thesis by (rule that [of 86]) (simp_all add: W200, presburger)
  next
    case W300 show ?thesis by (rule that [of 76]) (simp_all add: W300, presburger)
  next
    case W400 show ?thesis by (rule that [of 65]) (simp_all add: W400, presburger)
  next
    case W500 show ?thesis by (rule that [of 54]) (simp_all add: W500, presburger)
  next
    case W600 show ?thesis by (rule that [of 43]) (simp_all add: W600, presburger)
  next
    case W700 show ?thesis by (rule that [of 32]) (simp_all add: W700, presburger)
  next
    case W800 show ?thesis by (rule that [of 22]) (simp_all add: W800, presburger)
  next
    case W900 show ?thesis by (rule that [of 13]) (simp_all add: W900, presburger)
  next
    case W950 show ?thesis by (rule that [of 6]) (simp_all add: W950, presburger)
  qed
  show ?thesis
    unfolding n(1) using lit [OF n(2,3)] far [OF n(4)] by linarith
qed

lemma parsed_seed_off_targets:
  assumes "0 \<le> rgb_r c" "rgb_r c \<le> 255" "0 \<le> rgb_g c" "rgb_g c \<le> 255"
    "0 \<le> rgb_b c" "rgb_b c \<le> 255"
  shows "snd (snd (seedHsl c)) \<noteq> TARGET_LIGHTNESS w"
proof
  assume eq: "snd (snd (seedHsl c)) = TARGET_LIGHTNESS w"
  define a where "a = max (rgb_r c) (max (rgb_g c) (rgb_b c))"
  define b where "b = min (rgb_r c) (min (rgb_g c) (rgb_b c))"
  have r: "0 \<le> a" "a \<le> 255" "0 \<le> b" "b \<le> 255"
    using assms by (simp_all add: a_def b_def)
  have "\<bar>TARGET_LIGHTNESS w - of_int (a + b) / 510\<bar> \<le> 5 / 9007199254740992"
    using lightness_near_grid [OF r] eq
    by (simp only: seed_lightness a_def [symmetric] b_def [symmetric])
  moreover have "1 / 5100 \<le> \<bar>of_int (a + b) / 510 - TARGET_LIGHTNESS w\<bar> + 1 / 9007199254740992"
    by (rule grid_far_from_targets)
  ultimately show False by linarith
qed

lemma hexToRgb_channels:
  assumes "hexToRgb x = Some c"
  shows "0 \<le> rgb_r c \<and> rgb_r c \<le> 255 \<and> 0 \<le> rgb_g c \<and> rgb_g c \<le> 255
    \<and> 0 \<le> rgb_b c \<and> rgb_b c \<le> 255"
proof -
  from hexToRgb_Some_imp [OF assms] obtain ds
    where ds: "x = ds \<or> x = CHR ''#'' # ds" "length ds = 3 \<or> length ds = 6"
      "list_all is_hex_digit ds"
    by blast
  from ds(2) show ?thesis
  proof
    assume "length ds = 3"
    then obtain r g b where e: "ds = [r, g, b]" by (auto simp: length3_conv)
    then have h: "is_hex_digit r" "is_hex_digit g" "is_hex_digit b" using ds(3) by simp_all
    have "hexToRgb x = Some \<lparr>rgb_r = parseInt16 [r, r], rgb_g = parseInt16 [g, g],
        rgb_b = parseInt16 [b, b]\<rparr>"
      using h ds(1) unfolding e by (rule hexToRgb_short)
    with assms have "c = \<lparr>rgb_r = parseInt16 [r, r], rgb_g = parseInt16 [g, g],
        rgb_b = parseInt16 [b, b]\<rparr>" by simp
    then show ?thesis
      using parseInt16_hex_pair(1,2) [OF h(1) h(1)] parseInt16_hex_pair(1,2) [OF h(2) h(2)]
        parseInt16_hex_pair(1,2) [OF h(3) h(3)] by simp
  next
    assume "length ds = 6"
    then obtain r1 r2 g1 g2 b1 b2 where e: "ds = [r1, r2, g1, g2, b1, b2]"
      by (auto simp: length6_conv)
    then have h: "is_hex_digit r1" "is_hex_digit r2" "is_hex_digit g1" "is_hex_digit g2"
      "is_hex_digit b1" "is_hex_digit b2" using ds(3) by simp_all
    have "hexToRgb x = Some \<lparr>rgb_r = parseInt16 [r1, r2], rgb_g = parseInt16 [g1, g2],
        rgb_b = parseInt16 [b1, b2]\<rparr>"
      using ds(3) ds(1) unfolding e by (rule hexToRgb_full)
    with assms have "c = \<lparr>rgb_r = parseInt16 [r1, r2], rgb_g = parseInt16 [g1, g2],
        rgb_b = parseInt16 [b1, b2]\<rparr>" by simp
    then show ?thesis
      using parseInt16_hex_pair(1,2) [OF h(1,2)] parseInt16_hex_pair(1,2) [OF h(3,4)]
        parseInt16_hex_pair(1,2) [OF h(5,6)] by simp
  qed
qed

text \<open>
  No seed that \<open>hexToRgb\<close> returns has a lightness equal to a value of the target
  lightness table: the lightness of a seed is within \<open>5 / 2 ^ 53\<close> of a multiple of
  \<open>1 / 510\<close>, and no table value is that close to one.
\<close>

lemma parsed_seed_never_on_target:
  assumes "hexToRgb x = Some c" and "seedHsl c = (H, S, L)"
  shows "L \<noteq> TARGET_LIGHTNESS w"
  using parsed_seed_off_targets [of c w] hexToRgb_channels [OF assms(1)] assms(2) by simp

section \<open>The round trip through HSL\<close>

subsection \<open>The shape of the hue function\<close>

lemma hue_shape_bounds: "0 \<le> hue_shape t" "hue_shape t \<le> 1"
  by (simp_all add: hue_shape_def)

lemma max_close:
  fixes a :: real
  shows "\<bar>a - a'\<bar> \<le> e \<Longrightarrow> \<bar>b - b'\<bar> \<le> e \<Longrightarrow> \<bar>max a b - max a' b'\<bar> \<le> e"
  by (simp add: max_def abs_le_iff)

lemma min_close:
  fixes a :: real
  shows "\<bar>a - a'\<bar> \<le> e \<Longrightarrow> \<bar>b - b'\<bar> \<le> e \<Longrightarrow> \<bar>min a b - min a' b'\<bar> \<le> e"
  by (simp add: min_def abs_le_iff)

lemma tri_close: "\<bar>t - t'\<bar> \<le> e \<Longrightarrow> \<bar>tri t - tri t'\<bar> \<le> 6 * e"
  unfolding tri_def by (rule min_close) (simp_all add: abs_le_iff)

lemma hue_shape_close:
  assumes "\<bar>t - t'\<bar> \<le> e"
  shows "\<bar>hue_shape t - hue_shape t'\<bar> \<le> 6 * e"
proof -
  have e: "0 \<le> 6 * e" using assms by linarith
  have a: "\<bar>tri (t + 1) - tri (t' + 1)\<bar> \<le> 6 * e" using assms by (intro tri_close) simp
  have b: "\<bar>tri (t - 1) - tri (t' - 1)\<bar> \<le> 6 * e" using assms by (intro tri_close) simp
  have c: "\<bar>tri t - tri t'\<bar> \<le> 6 * e" using assms by (rule tri_close)
  show ?thesis
    unfolding hue_shape_def
    by (intro max_close min_close a b c) (simp_all add: e)
qed

lemma hue_shape_period:
  assumes "- 1 \<le> t" "t \<le> 1"
  shows "hue_shape (t + 1) = hue_shape t"
  using assms unfolding hue_shape_def tri_def by (simp add: max_def min_def)

lemma hue_shape_up: "0 \<le> t \<Longrightarrow> t \<le> 1 / 6 \<Longrightarrow> hue_shape t = 6 * t"
  unfolding hue_shape_def tri_def by (simp add: max_def min_def)

lemma hue_shape_top: "1 / 6 \<le> t \<Longrightarrow> t \<le> 1 / 2 \<Longrightarrow> hue_shape t = 1"
  unfolding hue_shape_def tri_def by (simp add: max_def min_def)

lemma hue_shape_down: "1 / 2 \<le> t \<Longrightarrow> t \<le> 2 / 3 \<Longrightarrow> hue_shape t = 4 - 6 * t"
  unfolding hue_shape_def tri_def by (simp add: max_def min_def)

lemma hue_shape_bot: "2 / 3 \<le> t \<Longrightarrow> t \<le> 1 \<Longrightarrow> hue_shape t = 0"
  unfolding hue_shape_def tri_def by (simp add: max_def min_def)

lemma fl_e8: "\<bar>x\<bar> \<le> 8 \<Longrightarrow> \<bar>fl x - x\<bar> \<le> 1 / 1000000000000000"
  using fl_err_le [of x 3] by (simp add: pow2_def)

lemma fl_e256: "\<bar>x\<bar> \<le> 256 \<Longrightarrow> \<bar>fl x - x\<bar> \<le> 1 / 10000000000000"
  using fl_err_le [of x 8] by (simp add: pow2_def)

lemma mul_close:
  fixes x :: real
  assumes "\<bar>x - x0\<bar> \<le> a" "\<bar>y - y0\<bar> \<le> b" "\<bar>x0\<bar> \<le> 7" "\<bar>y\<bar> \<le> 7"
  shows "\<bar>x * y - x0 * y0\<bar> \<le> 7 * a + 7 * b"
proof -
  have "x * y - x0 * y0 = (x - x0) * y + x0 * (y - y0)" by (simp add: algebra_simps)
  moreover have "\<bar>(x - x0) * y\<bar> \<le> a * 7"
    unfolding abs_mult using assms by (intro mult_mono) simp_all
  moreover have "\<bar>x0 * (y - y0)\<bar> \<le> 7 * b"
    unfolding abs_mult using assms by (intro mult_mono) simp_all
  ultimately show ?thesis by linarith
qed

lemma quot_close:
  fixes x :: real
  assumes "\<bar>x - x0\<bar> \<le> a" "\<bar>y - y0\<bar> \<le> b" "1 / 255 \<le> y0" "b \<le> 1 / 100000" "\<bar>x0\<bar> \<le> y0"
  shows "\<bar>x / y - x0 / y0\<bar> \<le> 256 * (a + b)"
proof -
  have y: "1 / 256 \<le> y" using assms by linarith
  then have y0: "0 < y" "0 < y0" using assms by linarith+
  define w where "w = x0 / y0"
  have w: "\<bar>w\<bar> \<le> 1" unfolding w_def using assms(5) y0 by (simp add: field_simps)
  have x0: "x0 = w * y0" unfolding w_def using y0 by simp
  have eq: "x / y - w = ((x - x0) - w * (y - y0)) / y"
    using y0 by (simp add: field_simps x0)
  have "\<bar>w * (y - y0)\<bar> \<le> 1 * b"
    unfolding abs_mult using assms w by (intro mult_mono) simp_all
  then have n: "\<bar>(x - x0) - w * (y - y0)\<bar> \<le> a + b" using assms(1) by linarith
  have "\<bar>((x - x0) - w * (y - y0)) / y\<bar> = \<bar>(x - x0) - w * (y - y0)\<bar> * (1 / y)"
    using y0 by (simp add: abs_divide)
  also have "\<dots> \<le> (a + b) * 256"
  proof (intro mult_mono n)
    show "1 / y \<le> 256" using y y0 by (simp add: field_simps)
    show "0 \<le> a + b" using n by linarith
  qed (use y0 in simp)
  finally show ?thesis unfolding w_def [symmetric] eq by simp
qed

subsection \<open>Channels and the constants of the hue function\<close>

lemma chan_err:
  fixes i :: int
  assumes "0 \<le> i" "i \<le> 255"
  shows "\<bar>fl (of_int i / 255) - of_int i / 255\<bar> \<le> 1 / 1000000000000000"
  using assms by (intro fl_e8) simp

lemma chan_strict:
  fixes i j :: int
  assumes "0 \<le> i" "i < j" "j \<le> 255"
  shows "fl (of_int i / 255) < fl (of_int j / 255)"
proof -
  have "i + 1 \<le> j" using assms by simp
  then have "real_of_int (i + 1) \<le> real_of_int j" by (simp only: of_int_le_iff)
  then have "real_of_int i / 255 + 1 / 255 \<le> real_of_int j / 255" by simp
  moreover have "\<bar>fl (of_int i / 255) - of_int i / 255\<bar> \<le> 1 / 1000000000000000"
    using assms by (intro chan_err) simp_all
  moreover have "\<bar>fl (of_int j / 255) - of_int j / 255\<bar> \<le> 1 / 1000000000000000"
    using assms by (intro chan_err) simp_all
  ultimately show ?thesis by linarith
qed

lemma chan_le_iff:
  fixes i j :: int
  assumes "0 \<le> i" "i \<le> 255" "0 \<le> j" "j \<le> 255"
  shows "fl (of_int i / 255) \<le> fl (of_int j / 255) \<longleftrightarrow> i \<le> j"
proof
  assume "fl (of_int i / 255) \<le> fl (of_int j / 255)"
  then show "i \<le> j" using chan_strict [of j i] assms by (cases "i \<le> j") simp_all
next
  assume "i \<le> j"
  then show "fl (of_int i / 255) \<le> fl (of_int j / 255)" by (intro fl_mono) simp
qed

lemma chan_less_iff:
  fixes i j :: int
  assumes "0 \<le> i" "i \<le> 255" "0 \<le> j" "j \<le> 255"
  shows "fl (of_int i / 255) < fl (of_int j / 255) \<longleftrightarrow> i < j"
  using chan_le_iff [OF assms(3,4,1,2)] by (simp add: not_le [symmetric])

lemma chan_eq_iff:
  fixes i j :: int
  assumes "0 \<le> i" "i \<le> 255" "0 \<le> j" "j \<le> 255"
  shows "fl (of_int i / 255) = fl (of_int j / 255) \<longleftrightarrow> i = j"
  using chan_le_iff [OF assms] chan_le_iff [OF assms(3,4,1,2)] by auto

lemma fl_half [simp]: "fl (1 / 2) = 1 / 2"
  using fl_repr [of 1 "- 1"] by (simp add: pow2_def)

lemma sixth_err: "\<bar>fl (1 / 6) - 1 / 6\<bar> \<le> 1 / 1000000000000000"
  by (intro fl_e8) simp

lemma third_err: "\<bar>fl (1 / 3) - 1 / 3\<bar> \<le> 1 / 1000000000000000"
  by (intro fl_e8) simp

lemma two_thirds_err: "\<bar>fl (2 / 3) - 2 / 3\<bar> \<le> 1 / 1000000000000000"
  by (intro fl_e8) simp

lemma hue_shape_near_up:
  assumes "0 \<le> t" "t \<le> 1 / 6 + e" "0 \<le> e"
  shows "\<bar>hue_shape t - 6 * t\<bar> \<le> 12 * e"
proof -
  define t' where "t' = min t (1 / 6)"
  have "\<bar>t - t'\<bar> \<le> e" using assms by (simp add: t'_def min_def)
  then have "\<bar>hue_shape t - hue_shape t'\<bar> \<le> 6 * e" by (rule hue_shape_close)
  moreover have "hue_shape t' = 6 * t'" using assms by (intro hue_shape_up) (simp_all add: t'_def)
  moreover have "\<bar>6 * t - 6 * t'\<bar> \<le> 6 * e" using \<open>\<bar>t - t'\<bar> \<le> e\<close> by linarith
  ultimately show ?thesis by linarith
qed

lemma hue_shape_near_top:
  assumes "1 / 6 - e \<le> t" "t \<le> 1 / 2" "0 \<le> e"
  shows "\<bar>hue_shape t - 1\<bar> \<le> 12 * e"
proof -
  define t' where "t' = max t (1 / 6)"
  have "\<bar>t - t'\<bar> \<le> e" using assms by (simp add: t'_def max_def)
  then have "\<bar>hue_shape t - hue_shape t'\<bar> \<le> 6 * e" by (rule hue_shape_close)
  moreover have "hue_shape t' = 1" using assms by (intro hue_shape_top) (simp_all add: t'_def)
  ultimately show ?thesis using assms(3) by linarith
qed

lemma hue_shape_near_down:
  assumes "1 / 2 \<le> t" "t \<le> 2 / 3 + e" "0 \<le> e"
  shows "\<bar>hue_shape t - (4 - 6 * t)\<bar> \<le> 12 * e"
proof -
  define t' where "t' = min t (2 / 3)"
  have "\<bar>t - t'\<bar> \<le> e" using assms by (simp add: t'_def min_def)
  then have "\<bar>hue_shape t - hue_shape t'\<bar> \<le> 6 * e" by (rule hue_shape_close)
  moreover have "hue_shape t' = 4 - 6 * t'"
    using assms by (intro hue_shape_down) (simp_all add: t'_def)
  moreover have "\<bar>6 * t - 6 * t'\<bar> \<le> 6 * e" using \<open>\<bar>t - t'\<bar> \<le> e\<close> by linarith
  ultimately show ?thesis by linarith
qed

lemma hue_shape_near_bot:
  assumes "2 / 3 - e \<le> t" "t \<le> 1" "0 \<le> e"
  shows "\<bar>hue_shape t\<bar> \<le> 12 * e"
proof -
  define t' where "t' = max t (2 / 3)"
  have "\<bar>t - t'\<bar> \<le> e" using assms by (simp add: t'_def max_def)
  then have "\<bar>hue_shape t - hue_shape t'\<bar> \<le> 6 * e" by (rule hue_shape_close)
  moreover have "hue_shape t' = 0" using assms by (intro hue_shape_bot) (simp_all add: t'_def)
  ultimately show ?thesis using assms(3) by linarith
qed

lemma scaled_shape:
  fixes x :: real
  assumes "\<bar>y - y0\<bar> \<le> b" "\<bar>x\<bar> \<le> 7" "\<bar>y\<bar> \<le> 7"
  shows "\<bar>x * y - x * y0\<bar> \<le> 7 * b"
  using mul_close [of x x 0 y y0 b] assms by simp

subsection \<open>The hue function in rounded arithmetic\<close>

text \<open>
  Each branch of \<^verbatim>\<open>hue2rgb\<close> is within \<open>10\<^sup>-\<^sup>1\<^sup>2\<close> of the exact shape, also when the rounded
  argument falls into the branch next to that of the exact one: the shape is continuous.
\<close>

lemma abs_mul_le:
  fixes x :: real
  assumes "\<bar>x\<bar> \<le> a" "\<bar>y\<bar> \<le> b"
  shows "\<bar>x * y\<bar> \<le> a * b"
  unfolding abs_mult using assms by (intro mult_mono) simp_all

lemma hue2rgb_canon:
  assumes t: "0 \<le> t" "t \<le> 1" and p: "\<bar>p\<bar> \<le> 21 / 20" and qp: "\<bar>q - p\<bar> \<le> 21 / 20"
  shows "\<bar>(if t < js_div 1 6 then js_add p (js_mul (js_mul (js_sub q p) 6) t)
         else if t < js_div 1 2 then q
         else if t < js_div 2 3
           then js_add p (js_mul (js_mul (js_sub q p) (js_sub (js_div 2 3) t)) 6)
         else p) - (p + (q - p) * hue_shape t)\<bar> \<le> 1 / 1000000000000"
proof -
  define x1 where "x1 = fl (q - p)"
  define k where "k = q - p"
  define hs where "hs = hue_shape t"
  have hsb: "\<bar>hs\<bar> \<le> 7" using hue_shape_bounds [of t] by (simp add: hs_def)
  have k7: "\<bar>k\<bar> \<le> 7" using qp by (simp add: k_def)
  have e1: "\<bar>x1 - k\<bar> \<le> 1 / 1000000000000000"
    unfolding x1_def k_def using qp by (intro fl_e8) simp
  consider (A) "t < fl (1 / 6)" | (B) "\<not> t < fl (1 / 6)" "t < 1 / 2"
    | (C) "\<not> t < fl (1 / 6)" "\<not> t < 1 / 2" "t < fl (2 / 3)"
    | (D) "\<not> t < fl (1 / 6)" "\<not> t < 1 / 2" "\<not> t < fl (2 / 3)" by blast
  then show ?thesis
  proof cases
    case A
    define x2 where "x2 = fl (x1 * 6)"
    define x3 where "x3 = fl (x2 * t)"
    define P where "P = (k * 6) * t"
    have "\<bar>x1 * 6\<bar> \<le> 8" using e1 qp unfolding k_def by linarith
    then have "\<bar>x2 - x1 * 6\<bar> \<le> 1 / 1000000000000000" unfolding x2_def by (rule fl_e8)
    then have e2: "\<bar>x2 - k * 6\<bar> \<le> 7 / 1000000000000000" using e1 by linarith
    have kq: "\<bar>k\<bar> \<le> 21 / 20" using qp by (simp add: k_def)
    have k63: "\<bar>k * 6\<bar> \<le> 63 / 10" using kq by linarith
    have k67: "\<bar>k * 6\<bar> \<le> 7" using kq by linarith
    note k6 = k63 k67
    have "\<bar>x2 * t - (k * 6) * t\<bar> \<le> 7 * (7 / 1000000000000000) + 7 * 0"
      by (rule mul_close [OF e2 _ k6(2)]) (use t in simp_all)
    then have m: "\<bar>x2 * t - P\<bar> \<le> 49 / 1000000000000000" by (simp add: P_def)
    have "\<bar>(k * 6) * t\<bar> \<le> 63 / 10 * 1"
      by (rule abs_mul_le [OF k6(1)]) (use t in simp)
    then have Pb: "\<bar>P\<bar> \<le> 63 / 10" by (simp add: P_def)
    then have "\<bar>x2 * t\<bar> \<le> 8" using m by linarith
    then have "\<bar>x3 - x2 * t\<bar> \<le> 1 / 1000000000000000" unfolding x3_def by (rule fl_e8)
    then have e3: "\<bar>x3 - P\<bar> \<le> 50 / 1000000000000000" using m by linarith
    then have "\<bar>p + x3\<bar> \<le> 8" using Pb p by linarith
    then have "\<bar>fl (p + x3) - (p + x3)\<bar> \<le> 1 / 1000000000000000" by (rule fl_e8)
    then have e4: "\<bar>fl (p + x3) - (p + P)\<bar> \<le> 51 / 1000000000000000" using e3 by linarith
    have "t \<le> 1 / 6 + 1 / 1000000000000000" using A sixth_err by linarith
    then have "\<bar>hue_shape t - 6 * t\<bar> \<le> 12 * (1 / 1000000000000000)"
      using t by (intro hue_shape_near_up) simp_all
    then have "\<bar>hs - 6 * t\<bar> \<le> 12 / 1000000000000000" by (simp add: hs_def)
    then have "\<bar>k * hs - k * (6 * t)\<bar> \<le> 7 * (12 / 1000000000000000)"
      using k7 hsb by (intro scaled_shape)
    then have "\<bar>k * hs - P\<bar> \<le> 84 / 1000000000000000" by (simp add: P_def mult.assoc)
    then have "\<bar>fl (p + x3) - (p + k * hs)\<bar> \<le> 1 / 1000000000000" using e4 by linarith
    then show ?thesis
      using A by (simp add: js_div_def js_add_def js_mul_def js_sub_def x1_def x2_def x3_def
          k_def hs_def)
  next
    case B
    have "1 / 6 - 1 / 1000000000000000 \<le> t" using B sixth_err by linarith
    then have "\<bar>hue_shape t - 1\<bar> \<le> 12 * (1 / 1000000000000000)"
      using B by (intro hue_shape_near_top) simp_all
    then have "\<bar>hs - 1\<bar> \<le> 12 / 1000000000000000" by (simp add: hs_def)
    then have "\<bar>k * hs - k * 1\<bar> \<le> 7 * (12 / 1000000000000000)"
      using k7 hsb by (intro scaled_shape)
    then have "\<bar>k * hs - k\<bar> \<le> 84 / 1000000000000000" by simp
    moreover have "q = p + k" by (simp add: k_def)
    ultimately have "\<bar>q - (p + k * hs)\<bar> \<le> 1 / 1000000000000" by linarith
    then show ?thesis
      using B unfolding k_def hs_def by (simp add: js_div_def)
  next
    case C
    define y1 where "y1 = fl (fl (2 / 3) - t)"
    define x2 where "x2 = fl (x1 * y1)"
    define x3 where "x3 = fl (x2 * 6)"
    define P where "P = k * (2 / 3 - t)"
    have tb: "1 / 2 \<le> t" "t \<le> 2 / 3 + 1 / 1000000000000000"
      using C two_thirds_err by linarith+
    have "\<bar>fl (2 / 3) - t\<bar> \<le> 8" using tb two_thirds_err by linarith
    then have "\<bar>y1 - (fl (2 / 3) - t)\<bar> \<le> 1 / 1000000000000000"
      unfolding y1_def by (rule fl_e8)
    then have ey: "\<bar>y1 - (2 / 3 - t)\<bar> \<le> 2 / 1000000000000000"
      using two_thirds_err by linarith
    have yb: "\<bar>y1\<bar> \<le> 1 / 5" "\<bar>2 / 3 - t\<bar> \<le> 1 / 5" using ey tb by linarith+
    have y7: "\<bar>y1\<bar> \<le> 7" using yb by linarith
    have "\<bar>x1 * y1 - k * (2 / 3 - t)\<bar> \<le> 7 * (1 / 1000000000000000) + 7 * (2 / 1000000000000000)"
      by (rule mul_close [OF e1 ey k7 y7])
    then have m: "\<bar>x1 * y1 - P\<bar> \<le> 21 / 1000000000000000" by (simp add: P_def)
    have kq: "\<bar>k\<bar> \<le> 21 / 20" using qp by (simp add: k_def)
    have "\<bar>k * (2 / 3 - t)\<bar> \<le> 21 / 20 * (1 / 5)"
      by (rule abs_mul_le [OF kq yb(2)])
    then have Pb: "\<bar>P\<bar> \<le> 21 / 100" by (simp add: P_def)
    then have "\<bar>x1 * y1\<bar> \<le> 8" using m by linarith
    then have "\<bar>x2 - x1 * y1\<bar> \<le> 1 / 1000000000000000" unfolding x2_def by (rule fl_e8)
    then have e2: "\<bar>x2 - P\<bar> \<le> 22 / 1000000000000000" using m by linarith
    then have "\<bar>x2 * 6\<bar> \<le> 8" using Pb by linarith
    then have "\<bar>x3 - x2 * 6\<bar> \<le> 1 / 1000000000000000" unfolding x3_def by (rule fl_e8)
    then have e3: "\<bar>x3 - P * 6\<bar> \<le> 133 / 1000000000000000" using e2 by linarith
    then have "\<bar>p + x3\<bar> \<le> 8" using Pb p by linarith
    then have "\<bar>fl (p + x3) - (p + x3)\<bar> \<le> 1 / 1000000000000000" by (rule fl_e8)
    then have e4: "\<bar>fl (p + x3) - (p + P * 6)\<bar> \<le> 134 / 1000000000000000"
      using e3 by linarith
    have "\<bar>hue_shape t - (4 - 6 * t)\<bar> \<le> 12 * (1 / 1000000000000000)"
      using tb by (intro hue_shape_near_down) simp_all
    then have "\<bar>hs - (4 - 6 * t)\<bar> \<le> 12 / 1000000000000000" by (simp add: hs_def)
    then have "\<bar>k * hs - k * (4 - 6 * t)\<bar> \<le> 7 * (12 / 1000000000000000)"
      using k7 hsb by (intro scaled_shape)
    moreover have "k * (4 - 6 * t) = P * 6" by (simp add: P_def algebra_simps)
    ultimately have "\<bar>k * hs - P * 6\<bar> \<le> 84 / 1000000000000000" by simp
    then have "\<bar>fl (p + x3) - (p + k * hs)\<bar> \<le> 1 / 1000000000000" using e4 by linarith
    then show ?thesis
      using C by (simp add: js_div_def js_add_def js_mul_def js_sub_def x1_def x2_def x3_def
          y1_def k_def hs_def)
  next
    case D
    have "2 / 3 - 1 / 1000000000000000 \<le> t" using D two_thirds_err by linarith
    then have "\<bar>hue_shape t\<bar> \<le> 12 * (1 / 1000000000000000)"
      using t by (intro hue_shape_near_bot) simp_all
    then have "\<bar>hs - 0\<bar> \<le> 12 / 1000000000000000" by (simp add: hs_def)
    then have "\<bar>k * hs - k * 0\<bar> \<le> 7 * (12 / 1000000000000000)"
      using k7 hsb by (intro scaled_shape)
    then have "\<bar>k * hs\<bar> \<le> 84 / 1000000000000000" by simp
    then have "\<bar>p - (p + k * hs)\<bar> \<le> 1 / 1000000000000" by linarith
    then show ?thesis
      using D unfolding k_def hs_def by (simp add: js_div_def)
  qed
qed

lemma hue2rgb_close:
  assumes t: "- 1 \<le> t" "t \<le> 2" and p: "\<bar>p\<bar> \<le> 21 / 20" and qp: "\<bar>q - p\<bar> \<le> 21 / 20"
  shows "\<bar>hue2rgb p q t - (p + (q - p) * hue_shape t)\<bar> \<le> 2 / 1000000000000"
proof -
  define t' where "t' = (if t < 0 then fl (t + 1) else if t > 1 then fl (t - 1) else t)"
  have "t < 0 \<Longrightarrow> fl (t + 1) \<le> fl 1" by (intro fl_mono) simp
  then have le1: "t < 0 \<Longrightarrow> \<not> fl (t + 1) > 1" by simp
  have h: "hue2rgb p q t =
      (if t' < js_div 1 6 then js_add p (js_mul (js_mul (js_sub q p) 6) t')
         else if t' < js_div 1 2 then q
         else if t' < js_div 2 3
           then js_add p (js_mul (js_mul (js_sub q p) (js_sub (js_div 2 3) t')) 6)
         else p)"
    unfolding hue2rgb_def Let_def t'_def using le1
    by (simp add: js_add_def js_sub_def)
  have t': "0 \<le> t'" "t' \<le> 1" "\<bar>hue_shape t' - hue_shape t\<bar> \<le> 6 / 1000000000000000"
  proof -
    consider (neg) "t < 0" | (mid) "0 \<le> t" "t \<le> 1" | (big) "1 < t" by linarith
    then have "0 \<le> t' \<and> t' \<le> 1 \<and> \<bar>hue_shape t' - hue_shape t\<bar> \<le> 6 / 1000000000000000"
    proof cases
      case neg
      have a: "t' = fl (t + 1)" using neg by (simp add: t'_def)
      have "0 \<le> fl (t + 1)" using t by (intro fl_nonneg) simp
      moreover have "fl (t + 1) \<le> fl 1" by (intro fl_mono) (use neg in simp)
      moreover have "\<bar>fl (t + 1) - (t + 1)\<bar> \<le> 1 / 1000000000000000"
        using t neg by (intro fl_e8) simp
      then have "\<bar>hue_shape (fl (t + 1)) - hue_shape (t + 1)\<bar> \<le> 6 * (1 / 1000000000000000)"
        by (rule hue_shape_close)
      moreover have "hue_shape (t + 1) = hue_shape t"
        using t neg by (intro hue_shape_period) simp_all
      ultimately show ?thesis unfolding a by simp
    next
      case mid
      then show ?thesis by (simp add: t'_def)
    next
      case big
      have a: "t' = fl (t - 1)" using big by (simp add: t'_def)
      have "0 \<le> fl (t - 1)" using big by (intro fl_nonneg) simp
      moreover have "fl (t - 1) \<le> fl 1" by (intro fl_mono) (use t in simp)
      moreover have "\<bar>fl (t - 1) - (t - 1)\<bar> \<le> 1 / 1000000000000000"
        using t big by (intro fl_e8) simp
      then have "\<bar>hue_shape (fl (t - 1)) - hue_shape (t - 1)\<bar> \<le> 6 * (1 / 1000000000000000)"
        by (rule hue_shape_close)
      moreover have "hue_shape (t - 1 + 1) = hue_shape (t - 1)"
        using t big by (intro hue_shape_period) simp_all
      ultimately show ?thesis unfolding a by simp
    qed
    then show "0 \<le> t'" "t' \<le> 1" "\<bar>hue_shape t' - hue_shape t\<bar> \<le> 6 / 1000000000000000"
      by simp_all
  qed
  have c: "\<bar>hue2rgb p q t - (p + (q - p) * hue_shape t')\<bar> \<le> 1 / 1000000000000"
    unfolding h using t'(1,2) p qp by (rule hue2rgb_canon)
  have "\<bar>(q - p) * hue_shape t' - (q - p) * hue_shape t\<bar> \<le> 7 * (6 / 1000000000000000)"
    using t'(3) qp hue_shape_bounds [of t'] by (intro scaled_shape) simp_all
  then show ?thesis using c by linarith
qed

lemma channel_restored:
  assumes p: "\<bar>p - C0\<bar> \<le> 1 / 1000000000" and q: "\<bar>q - A0\<bar> \<le> 1 / 1000000000"
    and r: "0 \<le> C0" "C0 \<le> A0" "A0 \<le> 1"
    and t: "\<bar>t - t0\<bar> \<le> 1 / 1000000000" "- 1 / 2 \<le> t0" "t0 \<le> 3 / 2"
    and v: "C0 + (A0 - C0) * hue_shape t0 = of_int v / 255"
  shows "Math_round (js_mul (hue2rgb p q t) 255) = v"
proof -
  define H where "H = hue2rgb p q t"
  have "\<bar>H - (p + (q - p) * hue_shape t)\<bar> \<le> 2 / 1000000000000"
    unfolding H_def using t p q r by (intro hue2rgb_close) linarith+
  moreover have "\<bar>hue_shape t - hue_shape t0\<bar> \<le> 6 * (1 / 1000000000)"
    using t(1) by (rule hue_shape_close)
  then have "\<bar>(q - p) * hue_shape t - (A0 - C0) * hue_shape t0\<bar>
      \<le> 7 * (2 / 1000000000) + 7 * (6 * (1 / 1000000000))"
    using p q r hue_shape_bounds [of t] by (intro mul_close) linarith+
  ultimately have e: "\<bar>H - of_int v / 255\<bar> \<le> 1 / 10000000"
    using p unfolding v [symmetric] by linarith
  define D where "D = (A0 - C0) * hue_shape t0"
  have "0 \<le> D"
    unfolding D_def using r hue_shape_bounds [of t0] by (intro mult_nonneg_nonneg) simp_all
  moreover have "(A0 - C0) * hue_shape t0 \<le> (A0 - C0) * 1"
    using r hue_shape_bounds [of t0] by (intro mult_left_mono) simp_all
  then have "D \<le> A0 - C0" by (simp add: D_def)
  moreover have "real_of_int v / 255 = C0 + D" by (simp add: D_def v)
  ultimately have vb: "0 \<le> real_of_int v / 255" "real_of_int v / 255 \<le> 1"
    using r by linarith+
  then have "\<bar>H * 255\<bar> \<le> 256" using e by linarith
  then have "\<bar>fl (H * 255) - H * 255\<bar> \<le> 1 / 10000000000000" by (rule fl_e256)
  then have "of_int v \<le> fl (H * 255) + 1 / 2" "fl (H * 255) + 1 / 2 < of_int v + 1"
    using e by linarith+
  then have "\<lfloor>fl (H * 255) + 1 / 2\<rfloor> = v" by (intro floor_unique)
  then show ?thesis by (simp add: Math_round_def js_mul_def H_def)
qed

subsection \<open>What \<open>rgbToHsl\<close> returns, compared with the exact values\<close>

text \<open>
  With \<open>a\<close> the largest and \<open>c\<close> the smallest channel, the \<open>q\<close> and \<open>p\<close> that \<open>hslToRgb\<close>
  computes from the saturation and the lightness are within \<open>10\<^sup>-\<^sup>9\<close> of \<open>a / 255\<close> and
  \<open>c / 255\<close>, whichever branch the comparisons of the lightness with 0.5 take, and the hue
  is within \<open>10\<^sup>-\<^sup>1\<^sup>2\<close> of the exact hue.
\<close>

lemma int_sum_ge:
  fixes a c :: int
  assumes "254 / 255 < real_of_int a / 255 + real_of_int c / 255"
  shows "1 \<le> real_of_int a / 255 + real_of_int c / 255"
proof -
  have "real_of_int 254 < real_of_int (a + c)" using assms by simp
  then have "254 < a + c" by (simp only: of_int_less_iff)
  then have "255 \<le> a + c" by simp
  then have "real_of_int 255 \<le> real_of_int (a + c)" by (simp only: of_int_le_iff)
  then show ?thesis by simp
qed

lemma int_sum_le:
  fixes a c :: int
  assumes "real_of_int a / 255 + real_of_int c / 255 < 256 / 255"
  shows "real_of_int a / 255 + real_of_int c / 255 \<le> 1"
proof -
  have "real_of_int (a + c) < real_of_int 256" using assms by simp
  then have "a + c < 256" by (simp only: of_int_less_iff)
  then have "a + c \<le> 255" by simp
  then have "real_of_int (a + c) \<le> real_of_int 255" by (simp only: of_int_le_iff)
  then show ?thesis by simp
qed

lemma int_gap:
  fixes a c :: int
  assumes "c < a"
  shows "1 / 255 \<le> real_of_int a / 255 - real_of_int c / 255"
proof -
  have "c + 1 \<le> a" using assms by simp
  then have "real_of_int (c + 1) \<le> real_of_int a" by (simp only: of_int_le_iff)
  then show ?thesis by simp
qed

lemma int_le_real:
  fixes a c :: int
  assumes "c \<le> a"
  shows "real_of_int c / 255 \<le> real_of_int a / 255"
  using assms by simp

lemma qp_close:
  fixes a c :: int
  assumes r: "0 \<le> c" "c < a" "a \<le> 255"
    and M_def: "M = fl (of_int a / 255)" and m_def: "m = fl (of_int c / 255)"
    and l_def: "l = js_div (js_add M m) 2"
    and s_def: "s = (if l > 1 / 2 then js_div (js_sub M m) (js_sub (js_sub 2 M) m)
                 else js_div (js_sub M m) (js_add M m))"
    and q_def: "q = (if l < 1 / 2 then js_mul l (js_add 1 s)
                 else js_sub (js_add l s) (js_mul l s))"
  shows "s \<noteq> 0" "\<bar>q - of_int a / 255\<bar> \<le> 1 / 1000000000"
    "\<bar>js_sub (js_mul 2 l) q - of_int c / 255\<bar> \<le> 1 / 1000000000"
proof -
  define A0 where "A0 = real_of_int a / 255"
  define C0 where "C0 = real_of_int c / 255"
  define T where "T = fl (M + m)"
  define d where "d = fl (M - m)"
  define T0 where "T0 = A0 + C0"
  define d0 where "d0 = A0 - C0"
  define l0 where "l0 = T0 / 2"
  have rng: "0 \<le> C0" "C0 \<le> 1" "0 \<le> A0" "A0 \<le> 1"
    using r by (simp_all add: A0_def C0_def)
  have gap: "1 / 255 \<le> d0" unfolding d0_def A0_def C0_def using r(2) by (rule int_gap)
  have eM: "\<bar>M - A0\<bar> \<le> 1 / 1000000000000000"
    unfolding M_def A0_def using r by (intro chan_err) simp_all
  have em: "\<bar>m - C0\<bar> \<le> 1 / 1000000000000000"
    unfolding m_def C0_def using r by (intro chan_err) simp_all
  have "\<bar>M + m\<bar> \<le> 8" using eM em rng by linarith
  then have "\<bar>T - (M + m)\<bar> \<le> 1 / 1000000000000000" unfolding T_def by (rule fl_e8)
  then have eT: "\<bar>T - T0\<bar> \<le> 3 / 1000000000000000" using eM em unfolding T0_def by linarith
  have l: "l = fl (T / 2)" by (simp add: l_def js_div_def js_add_def T_def)
  have "\<bar>T / 2\<bar> \<le> 8" using eT rng unfolding T0_def by linarith
  then have "\<bar>l - T / 2\<bar> \<le> 1 / 1000000000000000" unfolding l by (rule fl_e8)
  then have el: "\<bar>l - l0\<bar> \<le> 3 / 1000000000000000" using eT unfolding l0_def by linarith
  have "\<bar>M - m\<bar> \<le> 8" using eM em rng by linarith
  then have "\<bar>d - (M - m)\<bar> \<le> 1 / 1000000000000000" unfolding d_def by (rule fl_e8)
  then have ed: "\<bar>d - d0\<bar> \<le> 3 / 1000000000000000" using eM em unfolding d0_def by linarith
  have lT: "l0 = (A0 + C0) / 2" by (simp add: l0_def T0_def)
  have dd: "d0 = A0 - C0" by (simp add: d0_def)
  have ex: "\<exists>s0. \<bar>s - s0\<bar> \<le> 2000 / 1000000000000000 \<and> 1 / 255 \<le> s0 \<and> s0 \<le> 1
      \<and> (l < 1 / 2 \<longrightarrow> l0 + l0 * s0 = A0) \<and> (\<not> l < 1 / 2 \<longrightarrow> l0 + s0 - l0 * s0 = A0)"
  proof (cases "l > 1 / 2")
    case True
    define D0 where "D0 = 2 - T0"
    define den where "den = fl (fl (2 - M) - m)"
    define s0 where "s0 = d0 / D0"
    have s: "s = fl (d / den)"
      using True by (simp add: s_def js_div_def js_sub_def d_def den_def)
    have "254 / 255 < real_of_int a / 255 + real_of_int c / 255"
      using True el unfolding l0_def T0_def A0_def C0_def by argo
    then have "1 \<le> real_of_int a / 255 + real_of_int c / 255" by (rule int_sum_ge)
    then have T1: "1 \<le> T0" by (simp add: T0_def A0_def C0_def)
    have "\<bar>2 - M\<bar> \<le> 8" using eM rng by linarith
    then have "\<bar>fl (2 - M) - (2 - M)\<bar> \<le> 1 / 1000000000000000" by (rule fl_e8)
    moreover from this have "\<bar>fl (2 - M) - m\<bar> \<le> 8" using eM em rng by linarith
    then have "\<bar>den - (fl (2 - M) - m)\<bar> \<le> 1 / 1000000000000000"
      unfolding den_def by (rule fl_e8)
    ultimately have eden: "\<bar>den - D0\<bar> \<le> 4 / 1000000000000000"
      using eM em unfolding D0_def T0_def by linarith
    have D: "1 / 255 \<le> D0" "D0 \<le> 1" "\<bar>d0\<bar> \<le> D0"
      using gap rng T1 unfolding D0_def T0_def d0_def by linarith+
    have "4 / 1000000000000000 \<le> (1 :: real) / 100000" by simp
    with ed eden D(1) have "\<bar>d / den - d0 / D0\<bar>
        \<le> 256 * (3 / 1000000000000000 + 4 / 1000000000000000)"
      using D(3) by (intro quot_close)
    then have m1: "\<bar>d / den - s0\<bar> \<le> 1792 / 1000000000000000" by (simp add: s0_def)
    have sD: "s0 * D0 = d0" using D(1) by (simp add: s0_def)
    have s0b: "1 / 255 \<le> s0" "s0 \<le> 1"
    proof -
      have "0 < D0" using D(1) by linarith
      then show "s0 \<le> 1" using D(3) by (simp add: s0_def field_simps)
      have "d0 \<le> d0 / D0" using D gap \<open>0 < D0\<close> by (simp add: field_simps)
      then show "1 / 255 \<le> s0" using gap unfolding s0_def by linarith
    qed
    have "\<bar>d / den\<bar> \<le> 8" using m1 s0b by linarith
    then have "\<bar>s - d / den\<bar> \<le> 1 / 1000000000000000" unfolding s by (rule fl_e8)
    then have es: "\<bar>s - s0\<bar> \<le> 2000 / 1000000000000000" using m1 by linarith
    have "l0 = 1 - D0 / 2" unfolding l0_def D0_def by argo
    then have "l0 * s0 = (1 - D0 / 2) * s0" by (simp only:)
    also have "\<dots> = s0 - (s0 * D0) / 2" by (simp add: algebra_simps)
    finally have "l0 * s0 = s0 - (s0 * D0) / 2" .
    then have "l0 * s0 = s0 - d0 / 2" by (simp only: sD)
    then have "l0 + s0 - l0 * s0 = A0" using lT dd by argo
    then show ?thesis using es s0b True by (intro exI [of _ s0]) simp
  next
    case False
    define s0 where "s0 = d0 / T0"
    have s: "s = fl (d / T)"
      using False by (simp add: s_def js_div_def js_sub_def js_add_def d_def T_def)
    have "real_of_int a / 255 + real_of_int c / 255 < 256 / 255"
      using False el unfolding l0_def T0_def A0_def C0_def by argo
    then have "real_of_int a / 255 + real_of_int c / 255 \<le> 1" by (rule int_sum_le)
    then have T1: "T0 \<le> 1" by (simp add: T0_def A0_def C0_def)
    have D: "1 / 255 \<le> T0" "\<bar>d0\<bar> \<le> T0"
      using gap rng unfolding T0_def d0_def by linarith+
    have "3 / 1000000000000000 \<le> (1 :: real) / 100000" by simp
    with ed eT D(1) have "\<bar>d / T - d0 / T0\<bar>
        \<le> 256 * (3 / 1000000000000000 + 3 / 1000000000000000)"
      using D(2) by (intro quot_close)
    then have m1: "\<bar>d / T - s0\<bar> \<le> 1536 / 1000000000000000" by (simp add: s0_def)
    have sD: "s0 * T0 = d0" using D(1) by (simp add: s0_def)
    have s0b: "1 / 255 \<le> s0" "s0 \<le> 1"
    proof -
      have "0 < T0" using D(1) by linarith
      then show "s0 \<le> 1" using D(2) by (simp add: s0_def field_simps)
      have "d0 \<le> d0 / T0" using T1 gap \<open>0 < T0\<close> by (simp add: field_simps)
      then show "1 / 255 \<le> s0" using gap unfolding s0_def by linarith
    qed
    have "\<bar>d / T\<bar> \<le> 8" using m1 s0b by linarith
    then have "\<bar>s - d / T\<bar> \<le> 1 / 1000000000000000" unfolding s by (rule fl_e8)
    then have es: "\<bar>s - s0\<bar> \<le> 2000 / 1000000000000000" using m1 by linarith
    have "l0 * s0 = (s0 * T0) / 2" by (simp add: l0_def)
    then have ls: "l0 * s0 = d0 / 2" by (simp only: sD)
    then have one: "l0 + l0 * s0 = A0" using lT dd by argo
    have two: "l0 + s0 - l0 * s0 = A0" if "\<not> l < 1 / 2"
    proof -
      have "l = 1 / 2" using that False by linarith
      then have "254 / 255 < real_of_int a / 255 + real_of_int c / 255"
        using el unfolding l0_def T0_def A0_def C0_def by argo
      then have "1 \<le> real_of_int a / 255 + real_of_int c / 255" by (rule int_sum_ge)
      then have "T0 = 1" using T1 by (simp add: T0_def A0_def C0_def)
      then have "s0 = d0" "l0 = 1 / 2" by (simp_all add: s0_def l0_def)
      then show ?thesis using ls lT dd by argo
    qed
    show ?thesis using es s0b one two by (intro exI [of _ s0]) simp
  qed
  then obtain s0 where es: "\<bar>s - s0\<bar> \<le> 2000 / 1000000000000000"
    and s0b: "1 / 255 \<le> s0" "s0 \<le> 1"
    and one: "l < 1 / 2 \<Longrightarrow> l0 + l0 * s0 = A0"
    and two: "\<not> l < 1 / 2 \<Longrightarrow> l0 + s0 - l0 * s0 = A0" by blast
  show "s \<noteq> 0" using es s0b by linarith
  have l0b: "0 \<le> l0" "l0 \<le> 1" using rng by (simp_all add: lT)
  have l7: "\<bar>l0\<bar> \<le> 7" using l0b by linarith
  have eq: "\<bar>q - A0\<bar> \<le> 1 / 10000000000"
  proof (cases "l < 1 / 2")
    case True
    define u where "u = fl (1 + s)"
    have q: "q = fl (l * u)" using True by (simp add: q_def js_mul_def js_add_def u_def)
    have "\<bar>1 + s\<bar> \<le> 8" using es s0b by linarith
    then have "\<bar>u - (1 + s)\<bar> \<le> 1 / 1000000000000000" unfolding u_def by (rule fl_e8)
    then have eu: "\<bar>u - (1 + s0)\<bar> \<le> 2001 / 1000000000000000" using es by linarith
    have u7: "\<bar>u\<bar> \<le> 7" using eu s0b by linarith
    have m: "\<bar>l * u - l0 * (1 + s0)\<bar>
        \<le> 7 * (3 / 1000000000000000) + 7 * (2001 / 1000000000000000)"
      by (rule mul_close [OF el eu l7 u7])
    have "\<bar>l0 * (1 + s0)\<bar> \<le> 1 * 2"
      by (rule abs_mul_le) (use l0b s0b in linarith)+
    then have "\<bar>l * u\<bar> \<le> 8" using m by linarith
    then have "\<bar>q - l * u\<bar> \<le> 1 / 1000000000000000" unfolding q by (rule fl_e8)
    moreover have "l0 * (1 + s0) = A0" using one [OF True] by (simp add: algebra_simps)
    ultimately show ?thesis using m by linarith
  next
    case False
    define u where "u = fl (l + s)"
    define v where "v = fl (l * s)"
    have q: "q = fl (u - v)"
      using False by (simp add: q_def js_mul_def js_add_def js_sub_def u_def v_def)
    have "\<bar>l + s\<bar> \<le> 8" using es el s0b l0b by linarith
    then have "\<bar>u - (l + s)\<bar> \<le> 1 / 1000000000000000" unfolding u_def by (rule fl_e8)
    then have eu: "\<bar>u - (l0 + s0)\<bar> \<le> 2004 / 1000000000000000" using es el by linarith
    have s7: "\<bar>s\<bar> \<le> 7" using es s0b by linarith
    have m: "\<bar>l * s - l0 * s0\<bar>
        \<le> 7 * (3 / 1000000000000000) + 7 * (2000 / 1000000000000000)"
      by (rule mul_close [OF el es l7 s7])
    have P: "\<bar>l0 * s0\<bar> \<le> 1 * 1"
      by (rule abs_mul_le) (use l0b s0b in linarith)+
    then have "\<bar>l * s\<bar> \<le> 8" using m by linarith
    then have "\<bar>v - l * s\<bar> \<le> 1 / 1000000000000000" unfolding v_def by (rule fl_e8)
    then have ev: "\<bar>v - l0 * s0\<bar> \<le> 14022 / 1000000000000000" using m by linarith
    have "\<bar>u - v\<bar> \<le> 8" using eu ev P s0b l0b by linarith
    then have "\<bar>q - (u - v)\<bar> \<le> 1 / 1000000000000000" unfolding q by (rule fl_e8)
    then show ?thesis using eu ev two [OF False] by linarith
  qed
  then show "\<bar>q - of_int a / 255\<bar> \<le> 1 / 1000000000" unfolding A0_def by linarith
  define w where "w = fl (2 * l)"
  have "\<bar>2 * l\<bar> \<le> 8" using el l0b by linarith
  then have "\<bar>w - 2 * l\<bar> \<le> 1 / 1000000000000000" unfolding w_def by (rule fl_e8)
  then have ew: "\<bar>w - 2 * l0\<bar> \<le> 7 / 1000000000000000" using el by linarith
  have "\<bar>w - q\<bar> \<le> 8" using ew eq l0b rng by linarith
  then have "\<bar>fl (w - q) - (w - q)\<bar> \<le> 1 / 1000000000000000" by (rule fl_e8)
  moreover have "2 * l0 - A0 = C0" using lT by argo
  ultimately have "\<bar>fl (w - q) - C0\<bar> \<le> 1 / 1000000000" using ew eq by linarith
  then show "\<bar>js_sub (js_mul 2 l) q - of_int c / 255\<bar> \<le> 1 / 1000000000"
    by (simp add: js_sub_def js_mul_def w_def C0_def)
qed

lemma hue_close:
  fixes a c y z :: int
  assumes r: "0 \<le> c" "c < a" "a \<le> 255" "c \<le> y" "y \<le> a" "c \<le> z" "z \<le> a"
    and k: "0 \<le> k" "k \<le> 6"
    and w_def: "w = (real_of_int y / 255 - real_of_int z / 255)
      / (real_of_int a / 255 - real_of_int c / 255)"
    and h_def: "h = js_div (js_add (js_div (js_sub (fl (of_int y / 255)) (fl (of_int z / 255)))
        (js_sub (fl (of_int a / 255)) (fl (of_int c / 255)))) k) 6"
  shows "\<bar>h - (w + k) / 6\<bar> \<le> 1 / 1000000000000"
    "\<bar>w\<bar> \<le> 1"
    "w * (real_of_int a / 255 - real_of_int c / 255) = real_of_int y / 255 - real_of_int z / 255"
proof -
  define A0 where "A0 = real_of_int a / 255"
  define C0 where "C0 = real_of_int c / 255"
  define Y0 where "Y0 = real_of_int y / 255"
  define Z0 where "Z0 = real_of_int z / 255"
  define n where "n = fl (fl Y0 - fl Z0)"
  define d where "d = fl (fl A0 - fl C0)"
  define x1 where "x1 = fl (n / d)"
  define x2 where "x2 = fl (x1 + k)"
  have w: "w = (Y0 - Z0) / (A0 - C0)" by (simp add: w_def A0_def C0_def Y0_def Z0_def)
  have rng: "0 \<le> C0" "A0 \<le> 1" "C0 \<le> Y0" "Y0 \<le> A0" "C0 \<le> Z0" "Z0 \<le> A0"
    using r by (simp_all add: A0_def C0_def Y0_def Z0_def)
  have gap: "1 / 255 \<le> A0 - C0" unfolding A0_def C0_def using r(2) by (rule int_gap)
  have eA: "\<bar>fl A0 - A0\<bar> \<le> 1 / 1000000000000000"
    unfolding A0_def using r by (intro chan_err) simp_all
  have eC: "\<bar>fl C0 - C0\<bar> \<le> 1 / 1000000000000000"
    unfolding C0_def using r by (intro chan_err) simp_all
  have eY: "\<bar>fl Y0 - Y0\<bar> \<le> 1 / 1000000000000000"
    unfolding Y0_def using r by (intro chan_err) simp_all
  have eZ: "\<bar>fl Z0 - Z0\<bar> \<le> 1 / 1000000000000000"
    unfolding Z0_def using r by (intro chan_err) simp_all
  have "\<bar>fl Y0 - fl Z0\<bar> \<le> 8" using eY eZ rng by linarith
  then have "\<bar>n - (fl Y0 - fl Z0)\<bar> \<le> 1 / 1000000000000000" unfolding n_def by (rule fl_e8)
  then have en: "\<bar>n - (Y0 - Z0)\<bar> \<le> 3 / 1000000000000000" using eY eZ by linarith
  have "\<bar>fl A0 - fl C0\<bar> \<le> 8" using eA eC rng by linarith
  then have "\<bar>d - (fl A0 - fl C0)\<bar> \<le> 1 / 1000000000000000" unfolding d_def by (rule fl_e8)
  then have ed: "\<bar>d - (A0 - C0)\<bar> \<le> 3 / 1000000000000000" using eA eC by linarith
  have nd: "\<bar>Y0 - Z0\<bar> \<le> A0 - C0" using rng by linarith
  have "3 / 1000000000000000 \<le> (1 :: real) / 100000" by simp
  with en ed gap have "\<bar>n / d - (Y0 - Z0) / (A0 - C0)\<bar>
      \<le> 256 * (3 / 1000000000000000 + 3 / 1000000000000000)"
    using nd by (intro quot_close)
  then have m: "\<bar>n / d - w\<bar> \<le> 1536 / 1000000000000000" by (simp add: w)
  have pos: "0 < A0 - C0" using gap by linarith
  show wb: "\<bar>w\<bar> \<le> 1" unfolding w using nd pos by (simp add: field_simps)
  have "w * (A0 - C0) = Y0 - Z0" unfolding w using pos by simp
  then show "w * (real_of_int a / 255 - real_of_int c / 255)
      = real_of_int y / 255 - real_of_int z / 255"
    by (simp only: A0_def C0_def Y0_def Z0_def)
  have "\<bar>n / d\<bar> \<le> 8" using m wb by linarith
  then have "\<bar>x1 - n / d\<bar> \<le> 1 / 1000000000000000" unfolding x1_def by (rule fl_e8)
  then have e1: "\<bar>x1 - w\<bar> \<le> 1537 / 1000000000000000" using m by linarith
  then have "\<bar>x1 + k\<bar> \<le> 8" using wb k by linarith
  then have "\<bar>x2 - (x1 + k)\<bar> \<le> 1 / 1000000000000000" unfolding x2_def by (rule fl_e8)
  then have e2: "\<bar>x2 - (w + k)\<bar> \<le> 1538 / 1000000000000000" using e1 by linarith
  then have "\<bar>x2 / 6\<bar> \<le> 8" using wb k by linarith
  then have "\<bar>fl (x2 / 6) - x2 / 6\<bar> \<le> 1 / 1000000000000000" by (rule fl_e8)
  then have "\<bar>fl (x2 / 6) - (w + k) / 6\<bar> \<le> 1 / 1000000000000" using e2 by argo
  then show "\<bar>h - (w + k) / 6\<bar> \<le> 1 / 1000000000000"
    by (simp only: h_def js_div_def js_add_def js_sub_def x2_def x1_def n_def d_def
        A0_def C0_def Y0_def Z0_def)
qed

subsection \<open>The six sectors of the hue\<close>

lemma shape_k0:
  assumes "6 * h0 = w + 0" "0 \<le> w" "w \<le> 1"
  shows "hue_shape (h0 + 1 / 3) = 1" "hue_shape h0 = w" "hue_shape (h0 - 1 / 3) = 0"
  using assms unfolding hue_shape_def tri_def by (simp_all add: max_def min_def)

lemma shape_k6:
  assumes "6 * h0 = w + 6" "- 1 \<le> w" "w \<le> 0"
  shows "hue_shape (h0 + 1 / 3) = 1" "hue_shape h0 = 0" "hue_shape (h0 - 1 / 3) = - w"
  using assms unfolding hue_shape_def tri_def by (simp_all add: max_def min_def)

lemma shape_k2n:
  assumes "6 * h0 = w + 2" "- 1 \<le> w" "w \<le> 0"
  shows "hue_shape (h0 + 1 / 3) = - w" "hue_shape h0 = 1" "hue_shape (h0 - 1 / 3) = 0"
  using assms unfolding hue_shape_def tri_def by (simp_all add: max_def min_def)

lemma shape_k2p:
  assumes "6 * h0 = w + 2" "0 \<le> w" "w \<le> 1"
  shows "hue_shape (h0 + 1 / 3) = 0" "hue_shape h0 = 1" "hue_shape (h0 - 1 / 3) = w"
  using assms unfolding hue_shape_def tri_def by (simp_all add: max_def min_def)

lemma shape_k4n:
  assumes "6 * h0 = w + 4" "- 1 \<le> w" "w \<le> 0"
  shows "hue_shape (h0 + 1 / 3) = 0" "hue_shape h0 = - w" "hue_shape (h0 - 1 / 3) = 1"
  using assms unfolding hue_shape_def tri_def by (simp_all add: max_def min_def)

lemma shape_k4p:
  assumes "6 * h0 = w + 4" "0 \<le> w" "w \<le> 1"
  shows "hue_shape (h0 + 1 / 3) = w" "hue_shape h0 = 0" "hue_shape (h0 - 1 / 3) = 1"
  using assms unfolding hue_shape_def tri_def by (simp_all add: max_def min_def)

lemma w_facts:
  fixes a c y z :: int
  assumes r: "c < a" "c \<le> y" "y \<le> a" "c \<le> z" "z \<le> a"
    and w: "w = (real_of_int y / 255 - real_of_int z / 255)
      / (real_of_int a / 255 - real_of_int c / 255)"
  shows "- 1 \<le> w" "w \<le> 1"
    "w * (real_of_int a / 255 - real_of_int c / 255) = real_of_int y / 255 - real_of_int z / 255"
    "z \<le> y \<Longrightarrow> 0 \<le> w" "y \<le> z \<Longrightarrow> w \<le> 0"
proof -
  define d0 where "d0 = real_of_int a / 255 - real_of_int c / 255"
  define n0 where "n0 = real_of_int y / 255 - real_of_int z / 255"
  have d: "0 < d0" using r(1) by (simp add: d0_def)
  have n: "n0 \<le> d0" "- d0 \<le> n0" using r by (simp_all add: d0_def n0_def)
  have w': "w = n0 / d0" by (simp add: w d0_def n0_def)
  show "- 1 \<le> w" "w \<le> 1" using d n by (simp_all add: w' field_simps)
  have "w * d0 = n0" using d by (simp add: w')
  then show "w * (real_of_int a / 255 - real_of_int c / 255)
      = real_of_int y / 255 - real_of_int z / 255"
    by (simp only: d0_def n0_def)
  show "0 \<le> w" if "z \<le> y"
  proof -
    have "0 \<le> n0" using that by (simp add: n0_def)
    then show ?thesis unfolding w' using d by simp
  qed
  show "w \<le> 0" if "y \<le> z"
  proof -
    have "n0 \<le> 0" using that by (simp add: n0_def)
    then show ?thesis unfolding w' using d by (simp add: divide_le_0_iff)
  qed
qed

lemma chan_value:
  fixes a c y z x :: int
  assumes d: "w * (real_of_int a / 255 - real_of_int c / 255)
      = real_of_int y / 255 - real_of_int z / 255"
    and v: "V = 1 \<and> x = a \<or> V = 0 \<and> x = c \<or> V = w \<and> x = y \<and> z = c
      \<or> V = - w \<and> x = z \<and> y = c"
  shows "real_of_int c / 255 + (real_of_int a / 255 - real_of_int c / 255) * V
    = real_of_int x / 255"
proof -
  define P where "P = w * (real_of_int a / 255 - real_of_int c / 255)"
  have m: "(real_of_int a / 255 - real_of_int c / 255) * w = P"
    "(real_of_int a / 255 - real_of_int c / 255) * (- w) = - P"
    by (simp_all add: P_def mult.commute)
  have P: "P = real_of_int y / 255 - real_of_int z / 255" using d by (simp only: P_def)
  from v consider "V = 1" "x = a" | "V = 0" "x = c" | "V = w" "x = y" "z = c"
    | "V = - w" "x = z" "y = c" by blast
  then show ?thesis
  proof cases
    case 1 then show ?thesis by simp
  next
    case 2 then show ?thesis by simp
  next
    case 3 then show ?thesis unfolding 3(1) m(1) P by simp
  next
    case 4 then show ?thesis unfolding 4(1) m(2) P by simp
  qed
qed

lemma hslToRgb_sector:
  fixes r g b a c y z :: int
  assumes rng: "0 \<le> c" "c < a" "a \<le> 255" "c \<le> y" "y \<le> a" "c \<le> z" "z \<le> a"
    and k: "0 \<le> k" "k \<le> 6"
    and w: "w = (real_of_int y / 255 - real_of_int z / 255)
      / (real_of_int a / 255 - real_of_int c / 255)"
    and h0: "6 * h0 = w + k"
    and sh: "hue_shape (h0 + 1 / 3) = VR" "hue_shape h0 = VG" "hue_shape (h0 - 1 / 3) = VB"
    and vr: "VR = 1 \<and> r = a \<or> VR = 0 \<and> r = c \<or> VR = w \<and> r = y \<and> z = c
      \<or> VR = - w \<and> r = z \<and> y = c"
    and vg: "VG = 1 \<and> g = a \<or> VG = 0 \<and> g = c \<or> VG = w \<and> g = y \<and> z = c
      \<or> VG = - w \<and> g = z \<and> y = c"
    and vb: "VB = 1 \<and> b = a \<or> VB = 0 \<and> b = c \<or> VB = w \<and> b = y \<and> z = c
      \<or> VB = - w \<and> b = z \<and> y = c"
  shows "(case hsl_of a c y z k of (h, s, l) \<Rightarrow> hslToRgb h s l) = (r, g, b)"
proof -
  define M where "M = fl (of_int a / 255)"
  define m where "m = fl (of_int c / 255)"
  define l where "l = js_div (js_add M m) 2"
  define s where "s = (if l > 1 / 2 then js_div (js_sub M m) (js_sub (js_sub 2 M) m)
                 else js_div (js_sub M m) (js_add M m))"
  define q where "q = (if l < 1 / 2 then js_mul l (js_add 1 s)
                 else js_sub (js_add l s) (js_mul l s))"
  define p where "p = js_sub (js_mul 2 l) q"
  define h where "h = js_div (js_add (js_div (js_sub (fl (of_int y / 255)) (fl (of_int z / 255)))
        (js_sub (fl (of_int a / 255)) (fl (of_int c / 255)))) k) 6"
  define A0 where "A0 = real_of_int a / 255"
  define C0 where "C0 = real_of_int c / 255"
  have e: "hsl_of a c y z k = (h, s, l)"
    unfolding hsl_of_def Let_def h_def s_def l_def M_def m_def ..
  note qp = qp_close [OF rng(1-3) M_def m_def l_def s_def q_def]
  note hc = hue_close [OF rng k w h_def]
  note wf = w_facts [OF rng(2,4,5,6,7) w]
  have ec: "hslToRgb h s l = (Math_round (js_mul (hue2rgb p q (js_add h (js_div 1 3))) 255),
      Math_round (js_mul (hue2rgb p q h) 255),
      Math_round (js_mul (hue2rgb p q (js_sub h (js_div 1 3))) 255))"
    using qp(1) unfolding hslToRgb_def Let_def p_def q_def by simp
  have pc: "\<bar>p - C0\<bar> \<le> 1 / 1000000000" using qp(3) by (simp only: p_def C0_def)
  have qc: "\<bar>q - A0\<bar> \<le> 1 / 1000000000" using qp(2) by (simp only: A0_def)
  have ac: "0 \<le> C0" "C0 \<le> A0" "A0 \<le> 1" using rng by (simp_all add: A0_def C0_def)
  have hh: "\<bar>h - h0\<bar> \<le> 1 / 1000000000000"
  proof -
    have "(w + k) / 6 = h0" using h0 by simp
    then show ?thesis using hc(1) by simp
  qed
  have hr: "- 1 / 6 \<le> h0" "h0 \<le> 7 / 6" using h0 wf(1,2) k by linarith+
  have tg: "\<bar>h - h0\<bar> \<le> 1 / 1000000000" using hh by linarith
  have tr: "\<bar>js_add h (js_div 1 3) - (h0 + 1 / 3)\<bar> \<le> 1 / 1000000000"
  proof -
    have "\<bar>h + fl (1 / 3)\<bar> \<le> 8" using hh hr third_err by linarith
    then have "\<bar>fl (h + fl (1 / 3)) - (h + fl (1 / 3))\<bar> \<le> 1 / 1000000000000000"
      by (rule fl_e8)
    then show ?thesis unfolding js_add_def js_div_def using hh third_err by linarith
  qed
  have tb: "\<bar>js_sub h (js_div 1 3) - (h0 - 1 / 3)\<bar> \<le> 1 / 1000000000"
  proof -
    have "\<bar>h - fl (1 / 3)\<bar> \<le> 8" using hh hr third_err by linarith
    then have "\<bar>fl (h - fl (1 / 3)) - (h - fl (1 / 3))\<bar> \<le> 1 / 1000000000000000"
      by (rule fl_e8)
    then show ?thesis unfolding js_sub_def js_div_def using hh third_err by linarith
  qed
  have R: "Math_round (js_mul (hue2rgb p q (js_add h (js_div 1 3))) 255) = r"
  proof (rule channel_restored [OF pc qc ac tr])
    show "- 1 / 2 \<le> h0 + 1 / 3" "h0 + 1 / 3 \<le> 3 / 2" using hr by linarith+
    show "C0 + (A0 - C0) * hue_shape (h0 + 1 / 3) = real_of_int r / 255"
      unfolding sh A0_def C0_def using wf(3) vr by (rule chan_value)
  qed
  have G: "Math_round (js_mul (hue2rgb p q h) 255) = g"
  proof (rule channel_restored [OF pc qc ac tg])
    show "- 1 / 2 \<le> h0" "h0 \<le> 3 / 2" using hr by linarith+
    show "C0 + (A0 - C0) * hue_shape h0 = real_of_int g / 255"
      unfolding sh A0_def C0_def using wf(3) vg by (rule chan_value)
  qed
  have B: "Math_round (js_mul (hue2rgb p q (js_sub h (js_div 1 3))) 255) = b"
  proof (rule channel_restored [OF pc qc ac tb])
    show "- 1 / 2 \<le> h0 - 1 / 3" "h0 - 1 / 3 \<le> 3 / 2" using hr by linarith+
    show "C0 + (A0 - C0) * hue_shape (h0 - 1 / 3) = real_of_int b / 255"
      unfolding sh A0_def C0_def using wf(3) vb by (rule chan_value)
  qed
  show ?thesis unfolding e by (simp add: ec R G B)
qed

lemma rgbToHsl_sector:
  fixes r g b a c y z :: int
  assumes rr: "0 \<le> r" "r \<le> 255" "0 \<le> g" "g \<le> 255" "0 \<le> b" "b \<le> 255"
    and a: "a = max r (max g b)" and c: "c = min r (min g b)" and ca: "c < a"
    and yzk: "a = r \<and> \<not> g < b \<and> y = g \<and> z = b \<and> k = 0
      \<or> a = r \<and> g < b \<and> y = g \<and> z = b \<and> k = 6
      \<or> a \<noteq> r \<and> a = g \<and> y = b \<and> z = r \<and> k = 2
      \<or> a \<noteq> r \<and> a \<noteq> g \<and> y = r \<and> z = g \<and> k = 4"
  shows "rgbToHsl (of_int r) (of_int g) (of_int b) = hsl_of a c y z k"
proof -
  define R where "R = fl (real_of_int r / 255)"
  define G where "G = fl (real_of_int g / 255)"
  define B where "B = fl (real_of_int b / 255)"
  define MA where "MA = fl (real_of_int a / 255)"
  define MC where "MC = fl (real_of_int c / 255)"
  have j: "js_div (real_of_int r) 255 = R" "js_div (real_of_int g) 255 = G"
    "js_div (real_of_int b) 255 = B"
    by (simp_all add: js_div_def R_def G_def B_def)
  have mx: "max R (max G B) = MA"
    unfolding R_def G_def B_def MA_def a by (simp only: max_fl max_channel)
  have mn: "min R (min G B) = MC"
    unfolding R_def G_def B_def MC_def c by (simp only: min_fl min_channel)
  have ar: "0 \<le> a" "a \<le> 255" "0 \<le> c" "c \<le> 255" using rr by (simp_all add: a c)
  have ne: "MA \<noteq> MC" unfolding MA_def MC_def using chan_strict [of c a] ar ca by simp
  have c2: "(MA = R) = (a = r)" unfolding MA_def R_def by (rule chan_eq_iff) (use ar rr in simp_all)
  have c3: "(MA = G) = (a = g)" unfolding MA_def G_def by (rule chan_eq_iff) (use ar rr in simp_all)
  have c5: "(MA = B) = (a = b)" unfolding MA_def B_def by (rule chan_eq_iff) (use ar rr in simp_all)
  have c4: "(G < B) = (g < b)" unfolding G_def B_def by (rule chan_less_iff) (use rr in simp_all)
  have ab: "a \<noteq> r \<Longrightarrow> a \<noteq> g \<Longrightarrow> a = b" unfolding a by linarith
  have lhs: "rgbToHsl (of_int r) (of_int g) (of_int b) =
      (js_div (if a = r then js_add (js_div (js_sub G B) (js_sub MA MC)) (if g < b then 6 else 0)
               else if a = g then js_add (js_div (js_sub B R) (js_sub MA MC)) 2
               else js_add (js_div (js_sub R G) (js_sub MA MC)) 4) 6,
       (if js_div (js_add MA MC) 2 > 1 / 2
        then js_div (js_sub MA MC) (js_sub (js_sub 2 MA) MC)
        else js_div (js_sub MA MC) (js_add MA MC)),
       js_div (js_add MA MC) 2)"
    unfolding rgbToHsl_def Let_def j mx mn c2 c3 c4 c5 using ne ab by simp
  have rhs: "hsl_of a c y z k =
      (js_div (js_add (js_div (js_sub (fl (of_int y / 255)) (fl (of_int z / 255)))
          (js_sub MA MC)) k) 6,
       (if js_div (js_add MA MC) 2 > 1 / 2
        then js_div (js_sub MA MC) (js_sub (js_sub 2 MA) MC)
        else js_div (js_sub MA MC) (js_add MA MC)),
       js_div (js_add MA MC) 2)"
    unfolding hsl_of_def Let_def MA_def MC_def ..
  from yzk consider "a = r" "\<not> g < b" "y = g" "z = b" "k = 0"
    | "a = r" "g < b" "y = g" "z = b" "k = 6"
    | "a \<noteq> r" "a = g" "y = b" "z = r" "k = 2"
    | "a \<noteq> r" "a \<noteq> g" "y = r" "z = g" "k = 4" by blast
  then show ?thesis
  proof cases
    case 1 then show ?thesis unfolding lhs rhs by (simp add: R_def G_def B_def)
  next
    case 2 then show ?thesis unfolding lhs rhs by (simp add: R_def G_def B_def)
  next
    case 3 then show ?thesis unfolding lhs rhs by (simp add: R_def G_def B_def)
  next
    case 4 then show ?thesis unfolding lhs rhs by (simp add: R_def G_def B_def)
  qed
qed

lemma achromatic_round_trip:
  fixes r :: int
  assumes rr: "0 \<le> r" "r \<le> 255"
  shows "(case rgbToHsl (of_int r) (of_int r) (of_int r) of (h, s, l) \<Rightarrow> hslToRgb h s l)
    = (r, r, r)"
proof -
  define R where "R = fl (real_of_int r / 255)"
  define l where "l = fl (fl (R + R) / 2)"
  have e: "rgbToHsl (of_int r) (of_int r) (of_int r) = (0, 0, l)"
    by (simp add: rgbToHsl_def Let_def js_div_def js_add_def R_def l_def)
  have rb: "0 \<le> real_of_int r / 255" "real_of_int r / 255 \<le> 1" using rr by simp_all
  have e1: "\<bar>R - real_of_int r / 255\<bar> \<le> 1 / 1000000000000000"
    unfolding R_def using rr by (rule chan_err)
  then have "\<bar>R + R\<bar> \<le> 8" using rb by linarith
  then have e2: "\<bar>fl (R + R) - (R + R)\<bar> \<le> 1 / 1000000000000000" by (rule fl_e8)
  then have "\<bar>fl (R + R) / 2\<bar> \<le> 8" using e1 rb by linarith
  then have "\<bar>l - fl (R + R) / 2\<bar> \<le> 1 / 1000000000000000" unfolding l_def by (rule fl_e8)
  then have el: "\<bar>l - real_of_int r / 255\<bar> \<le> 3 / 1000000000000000" using e1 e2 by linarith
  then have "\<bar>l * 255\<bar> \<le> 256" using rb by linarith
  then have "\<bar>fl (l * 255) - l * 255\<bar> \<le> 1 / 10000000000000" by (rule fl_e256)
  then have "of_int r \<le> fl (l * 255) + 1 / 2" "fl (l * 255) + 1 / 2 < of_int r + 1"
    using el by linarith+
  then have "\<lfloor>fl (l * 255) + 1 / 2\<rfloor> = r" by (intro floor_unique)
  then have "Math_round (js_mul l 255) = r" by (simp add: Math_round_def js_mul_def)
  then show ?thesis unfolding e by (simp add: hslToRgb_def)
qed

lemma round_trip_exact:
  fixes r g b :: int
  assumes rr: "0 \<le> r" "r \<le> 255" "0 \<le> g" "g \<le> 255" "0 \<le> b" "b \<le> 255"
  shows "(case rgbToHsl (of_int r) (of_int g) (of_int b) of (h, s, l) \<Rightarrow> hslToRgb h s l)
    = (r, g, b)"
proof -
  consider (grey) "r = g" "g = b"
    | (I) "b \<le> g" "g \<le> r" "b < r"
    | (VI) "g < b" "b \<le> r"
    | (II) "r < g" "b \<le> r"
    | (III) "r < g" "r < b" "b \<le> g"
    | (IV) "r < b" "g < b" "r \<le> g"
    | (V) "g < r" "r < b"
    by linarith
  then show ?thesis
  proof cases
    case grey
    then show ?thesis using achromatic_round_trip [OF rr(1,2)] by simp
  next
    case I
    define w where "w = (real_of_int g / 255 - real_of_int b / 255)
      / (real_of_int r / 255 - real_of_int b / 255)"
    define h0 where "h0 = (w + 0) / 6"
    have h0: "6 * h0 = w + 0" by (simp add: h0_def)
    have rng: "0 \<le> b" "b < r" "r \<le> 255" "b \<le> g" "g \<le> r" "b \<le> b" "b \<le> r"
      using rr I by simp_all
    note wf = w_facts [OF rng(2,4,5,6,7) w_def]
    have o: "b \<le> g" using I by simp
    note sh = shape_k0 [OF h0 wf(4) [OF o] wf(2)]
    have e: "rgbToHsl (of_int r) (of_int g) (of_int b) = hsl_of r b g b 0"
      by (rule rgbToHsl_sector [OF rr]) (use I in simp_all)
    show ?thesis
      unfolding e by (rule hslToRgb_sector [OF rng _ _ w_def h0 sh]) (use I in simp_all)
  next
    case VI
    define w where "w = (real_of_int g / 255 - real_of_int b / 255)
      / (real_of_int r / 255 - real_of_int g / 255)"
    define h0 where "h0 = (w + 6) / 6"
    have h0: "6 * h0 = w + 6" by (simp add: h0_def)
    have rng: "0 \<le> g" "g < r" "r \<le> 255" "g \<le> g" "g \<le> r" "g \<le> b" "b \<le> r"
      using rr VI by simp_all
    note wf = w_facts [OF rng(2,4,5,6,7) w_def]
    have o: "g \<le> b" using VI by simp
    note sh = shape_k6 [OF h0 wf(1) wf(5) [OF o]]
    have e: "rgbToHsl (of_int r) (of_int g) (of_int b) = hsl_of r g g b 6"
      by (rule rgbToHsl_sector [OF rr]) (use VI in simp_all)
    show ?thesis
      unfolding e by (rule hslToRgb_sector [OF rng _ _ w_def h0 sh]) (use VI in simp_all)
  next
    case II
    define w where "w = (real_of_int b / 255 - real_of_int r / 255)
      / (real_of_int g / 255 - real_of_int b / 255)"
    define h0 where "h0 = (w + 2) / 6"
    have h0: "6 * h0 = w + 2" by (simp add: h0_def)
    have rng: "0 \<le> b" "b < g" "g \<le> 255" "b \<le> b" "b \<le> g" "b \<le> r" "r \<le> g"
      using rr II by simp_all
    note wf = w_facts [OF rng(2,4,5,6,7) w_def]
    have o: "b \<le> r" using II by simp
    note sh = shape_k2n [OF h0 wf(1) wf(5) [OF o]]
    have e: "rgbToHsl (of_int r) (of_int g) (of_int b) = hsl_of g b b r 2"
      by (rule rgbToHsl_sector [OF rr]) (use II in simp_all)
    show ?thesis
      unfolding e by (rule hslToRgb_sector [OF rng _ _ w_def h0 sh]) (use II in simp_all)
  next
    case III
    define w where "w = (real_of_int b / 255 - real_of_int r / 255)
      / (real_of_int g / 255 - real_of_int r / 255)"
    define h0 where "h0 = (w + 2) / 6"
    have h0: "6 * h0 = w + 2" by (simp add: h0_def)
    have rng: "0 \<le> r" "r < g" "g \<le> 255" "r \<le> b" "b \<le> g" "r \<le> r" "r \<le> g"
      using rr III by simp_all
    note wf = w_facts [OF rng(2,4,5,6,7) w_def]
    have o: "r \<le> b" using III by simp
    note sh = shape_k2p [OF h0 wf(4) [OF o] wf(2)]
    have e: "rgbToHsl (of_int r) (of_int g) (of_int b) = hsl_of g r b r 2"
      by (rule rgbToHsl_sector [OF rr]) (use III in simp_all)
    show ?thesis
      unfolding e by (rule hslToRgb_sector [OF rng _ _ w_def h0 sh]) (use III in simp_all)
  next
    case IV
    define w where "w = (real_of_int r / 255 - real_of_int g / 255)
      / (real_of_int b / 255 - real_of_int r / 255)"
    define h0 where "h0 = (w + 4) / 6"
    have h0: "6 * h0 = w + 4" by (simp add: h0_def)
    have rng: "0 \<le> r" "r < b" "b \<le> 255" "r \<le> r" "r \<le> b" "r \<le> g" "g \<le> b"
      using rr IV by simp_all
    note wf = w_facts [OF rng(2,4,5,6,7) w_def]
    have o: "r \<le> g" using IV by simp
    note sh = shape_k4n [OF h0 wf(1) wf(5) [OF o]]
    have e: "rgbToHsl (of_int r) (of_int g) (of_int b) = hsl_of b r r g 4"
      by (rule rgbToHsl_sector [OF rr]) (use IV in simp_all)
    show ?thesis
      unfolding e by (rule hslToRgb_sector [OF rng _ _ w_def h0 sh]) (use IV in simp_all)
  next
    case V
    define w where "w = (real_of_int r / 255 - real_of_int g / 255)
      / (real_of_int b / 255 - real_of_int g / 255)"
    define h0 where "h0 = (w + 4) / 6"
    have h0: "6 * h0 = w + 4" by (simp add: h0_def)
    have rng: "0 \<le> g" "g < b" "b \<le> 255" "g \<le> r" "r \<le> b" "g \<le> g" "g \<le> b"
      using rr V by simp_all
    note wf = w_facts [OF rng(2,4,5,6,7) w_def]
    have o: "g \<le> r" using V by simp
    note sh = shape_k4p [OF h0 wf(4) [OF o] wf(2)]
    have e: "rgbToHsl (of_int r) (of_int g) (of_int b) = hsl_of b g r g 4"
      by (rule rgbToHsl_sector [OF rr]) (use V in simp_all)
    show ?thesis
      unfolding e by (rule hslToRgb_sector [OF rng _ _ w_def h0 sh]) (use V in simp_all)
  qed
qed

text \<open>
  Claim C8. For every color with integer channels between 0 and 255,
  \<open>hslToRgb (rgbToHsl c)\<close> differs from the color by at most 1 in each channel. The lemma
  \<open>round_trip_exact\<close> above shows more: in the rounded arithmetic of the source the three
  channels come back unchanged.
\<close>

theorem hsl_round_trip:
  fixes r g b :: int
  assumes "0 \<le> r" "r \<le> 255" "0 \<le> g" "g \<le> 255" "0 \<le> b" "b \<le> 255"
  shows "case rgbToHsl (of_int r) (of_int g) (of_int b) of (h, s, l) \<Rightarrow>
    (case hslToRgb h s l of (r', g', b') \<Rightarrow>
       \<bar>r' - r\<bar> \<le> 1 \<and> \<bar>g' - g\<bar> \<le> 1 \<and> \<bar>b' - b\<bar> \<le> 1)"
proof -
  have "(case rgbToHsl (of_int r) (of_int g) (of_int b) of (h, s, l) \<Rightarrow> hslToRgb h s l)
      = (r, g, b)"
    using assms by (rule round_trip_exact)
  then show ?thesis by (simp split: prod.splits)
qed

text \<open>
  The seed \<open>#3B82F6\<close>, the color (59, 130, 246): its hue, saturation and lightness are the
  three doubles below, and \<open>hslToRgb\<close> takes them back to within 1 of each channel.
\<close>

theorem hsl_round_trip_witness:
  "(0 :: int) \<le> 59 \<and> (59 :: int) \<le> 255 \<and> (0 :: int) \<le> 130 \<and> (130 :: int) \<le> 255
   \<and> (0 :: int) \<le> 246 \<and> (246 :: int) \<le> 255
   \<and> rgbToHsl 59 130 246 =
      (5434825218769743 / 9007199254740992, 8216323222617395 / 9007199254740992,
       5386658377835299 / 9007199254740992)
   \<and> (case hslToRgb (5434825218769743 / 9007199254740992) (8216323222617395 / 9007199254740992)
         (5386658377835299 / 9007199254740992) of
       (r', g', b') \<Rightarrow> \<bar>r' - 59\<bar> \<le> 1 \<and> \<bar>g' - 130\<bar> \<le> 1 \<and> \<bar>b' - 246\<bar> \<le> 1)"
  using hsl_round_trip [of 59 130 246] blue_hsl by simp

end

